theory Spec2Isabelle
  imports Complex_Main
begin

section \<open>The backtesting broker of lumibot\<close>

text \<open>
  A shallow embedding of \<^verbatim>\<open>lumibot/backtesting/backtesting_broker.py\<close>.
  Prices, quantities, fees and cash are real numbers: the rounding of Python's floats
  and of the 28-digit Decimal context is not modelled. Points in time are seconds
  on the real line, a date is a day number. Strings are compared as the source compares
  them, so a side or an order type outside the expected ones takes the branch the source
  takes. Every exception the modelled code can raise is a value of \<open>error\<close>, returned
  together with the state the exception leaves behind.
\<close>

subsection \<open>Data\<close>

datatype error =
  AttributeError | IndexError | UnboundLocalError | TypeError | ValueError | ZeroDivisionError

record asset =
  symbol :: string
  asset_type :: string
  expiration :: "int option"
  strike :: real
  right :: string
  multiplier :: real

datatype trail_amount = Absolute real | Percent real

record order =
  strategy :: string
  asset :: asset
  quantity :: real
  side :: string
  order_type :: string
  order_class :: string
  limit_price :: "real option"
  stop_price :: "real option"
  stop_loss_price :: "real option"
  stop_loss_limit_price :: "real option"
  take_profit_price :: "real option"
  trail :: "trail_amount option"
  quote :: "asset option"
  status :: string
  price_triggered :: bool
  trail_stop_price :: "real option"
  trade_cost :: "real option"
  dependent_order :: "nat option"
  dependent_order_filled :: bool

record position =
  position_asset :: asset
  position_quantity :: real

record trading_fee =
  flat_fee :: real
  percent_fee :: real
  maker :: bool
  taker :: bool

text \<open>One row of a price frame: its index (a point in time) and the OHLCV columns.\<close>

record bar =
  bar_index :: real
  bar_open :: real
  bar_high :: real
  bar_low :: real
  bar_close :: real
  bar_volume :: real

text \<open>
  What the stream has been asked to dispatch. An order that lives in the broker's
  collections is named by its address in the heap \<open>orders\<close>; the order of a cash settlement
  is a fresh object that is handed to the stream only.
\<close>

datatype event =
  New_order nat
  | Filled_order nat real real
  | Canceled_order nat
  | Cash_settled order real real

text \<open>
  The broker together with its data source and the one strategy it serves. The heap
  \<open>orders\<close> maps an address to the order object stored there (\<open>dependent_order\<close> holds an
  address), \<open>next_id\<close> is the first free address. \<open>tracked_orders\<close> and \<open>positions\<close> are what
  \<^verbatim>\<open>get_tracked_orders(strategy.name)\<close> and \<^verbatim>\<open>get_tracked_positions(strategy.name)\<close>
  return; \<open>new_orders\<close> is \<^verbatim>\<open>_new_orders\<close>; \<open>events\<close> is the log of dispatched events.
\<close>

record state =
  SOURCE :: string
  timestep :: string
  datetime :: real
  datetime_start :: real
  datetime_end :: real
  trading_days :: "(real \<times> real) list"
  orders :: "nat \<Rightarrow> order"
  next_id :: nat
  tracked_orders :: "nat list"
  new_orders :: "nat list"
  positions :: "position list"
  cash :: real
  buy_trading_fees :: "trading_fee list"
  sell_trading_fees :: "trading_fee list"
  minutes_before_closing :: real
  events :: "event list"

text \<open>
  The market data the broker reads, a parameter of the model:
  \<^verbatim>\<open>strategy.get_historical_prices(asset, length, quote=..)\<close> gives a frame of rows or
  None (the time shift and the time step of the request are fixed by the branch that asks),
  \<^verbatim>\<open>get_last_price(Asset(symbol=.., asset_type=..))\<close> gives a price.
\<close>

record feed =
  get_historical_prices :: "asset \<Rightarrow> asset option \<Rightarrow> nat \<Rightarrow> bar list option"
  get_last_price :: "string \<Rightarrow> string \<Rightarrow> real"

type_synonym result = "(error \<times> state) + state"

definition final_state :: "result \<Rightarrow> state" where
  "final_state r = (case r of Inl (e, s) \<Rightarrow> s | Inr s \<Rightarrow> s)"

definition truthy :: "real option \<Rightarrow> bool" where
  \<comment> \<open>Python's truth value of a price attribute: None and 0 are false.\<close>
  "truthy p = (case p of None \<Rightarrow> False | Some x \<Rightarrow> x \<noteq> 0)"

definition upper :: "string \<Rightarrow> string" where
  \<comment> \<open>\<^verbatim>\<open>str.upper()\<close> on ASCII text.\<close>
  "upper s = map (\<lambda>c. case map_of (zip ''abcdefghijklmnopqrstuvwxyz''
                                        ''ABCDEFGHIJKLMNOPQRSTUVWXYZ'') c of
                         None \<Rightarrow> c | Some d \<Rightarrow> d) s"

definition IS_BACKTESTING_BROKER :: bool where
  "IS_BACKTESTING_BROKER = True"

subsection \<open>Parts of the program that are not in the source tree\<close>

definition CANCELED_ORDER :: string where
  \<comment> \<open>Modelled from the spec: the event-kind constant \<^verbatim>\<open>Broker.CANCELED_ORDER\<close> of the base
     class is missing; the spec names the status of a canceled order \<^verbatim>\<open>canceled\<close>.\<close>
  "CANCELED_ORDER = ''canceled''"

definition FILLED_ORDER :: string where
  \<comment> \<open>Modelled from the spec: the constant \<^verbatim>\<open>Broker.FILLED_ORDER\<close> is missing; the spec names
     the status of a filled order \<^verbatim>\<open>filled\<close>.\<close>
  "FILLED_ORDER = ''filled''"

definition set_status :: "nat \<Rightarrow> string \<Rightarrow> state \<Rightarrow> state" where
  \<comment> \<open>Modelled from the spec: part of the missing \<^verbatim>\<open>Broker._process_trade_event\<close>. Section 3:
     once the status is filled or canceled, no further state transitions occur.\<close>
  "set_status i st s =
     (if status (orders s i) = FILLED_ORDER \<or> status (orders s i) = CANCELED_ORDER then s
      else s\<lparr>orders := (orders s)(i := (orders s i)\<lparr>status := st\<rparr>)\<rparr>)"

definition process_trade_event :: "event \<Rightarrow> state \<Rightarrow> state" where
  \<comment> \<open>Modelled from the spec: \<^verbatim>\<open>Broker._process_trade_event\<close> is missing. Sections 3, 4.3 and
     4.6: the handler of NEW_ORDER moves the order to \<^verbatim>\<open>new\<close>, that of FILLED_ORDER to
     \<^verbatim>\<open>filled\<close>, that of CANCELED_ORDER to \<^verbatim>\<open>canceled\<close>, and canceling an order whose sibling
     has already filled is a no-op. Position accounting is not modelled.\<close>
  "process_trade_event ev s =
     (case ev of
        New_order i \<Rightarrow> set_status i ''new'' s
      | Filled_order i p q \<Rightarrow> set_status i FILLED_ORDER s
      | Canceled_order i \<Rightarrow>
          (case dependent_order (orders s i) of
             None \<Rightarrow> set_status i CANCELED_ORDER s
           | Some j \<Rightarrow> if status (orders s j) = FILLED_ORDER then s
                       else set_status i CANCELED_ORDER s)
      | Cash_settled ord p q \<Rightarrow> s)"

definition dispatch :: "event \<Rightarrow> state \<Rightarrow> state" where
  \<comment> \<open>Modelled from the spec: \<^verbatim>\<open>CustomStream.dispatch\<close> is missing. Section 4.6: events are
     handled synchronously, in dispatch order, by the handler the broker registered.\<close>
  "dispatch ev s = process_trade_event ev (s\<lparr>events := events s @ [ev]\<rparr>)"

definition Order :: "string \<Rightarrow> asset \<Rightarrow> real \<Rightarrow> string \<Rightarrow> real option \<Rightarrow> real option
    \<Rightarrow> asset option \<Rightarrow> order" where
  \<comment> \<open>Modelled from the spec: the constructor of \<^verbatim>\<open>lumibot.entities.Order\<close> is missing.
     Sections 3 and 4.3: an order enters as \<^verbatim>\<open>unprocessed\<close>; given a stop price it is a stop,
     given a limit price a limit, given both a stop_limit, given neither a market order.\<close>
  "Order strat a q sd sp lp qt =
     \<lparr>strategy = strat, asset = a, quantity = q, side = sd,
      order_type = (if sp \<noteq> None \<and> lp \<noteq> None then ''stop_limit''
                    else if sp \<noteq> None then ''stop''
                    else if lp \<noteq> None then ''limit'' else ''market''),
      order_class = '''', limit_price = lp, stop_price = sp,
      stop_loss_price = None, stop_loss_limit_price = None, take_profit_price = None,
      trail = None, quote = qt, status = ''unprocessed'', price_triggered = False,
      trail_stop_price = None, trade_cost = None, dependent_order = None,
      dependent_order_filled = False\<rparr>"

definition create_order :: "state \<Rightarrow> asset \<Rightarrow> real \<Rightarrow> string \<Rightarrow> order" where
  \<comment> \<open>Modelled from the spec: \<^verbatim>\<open>Strategy.create_order\<close> is missing. Section 4.4: a synthetic
     order of the given side and quantity on the given asset.\<close>
  "create_order s a q sd = Order '''' a q sd None None None"

definition trail_offset :: "trail_amount \<Rightarrow> real \<Rightarrow> real" where
  \<comment> \<open>Modelled from the spec: section 4.3.1, the distance of the trail from the reference
     price, an absolute offset or (the percentage variant) that fraction of the price.\<close>
  "trail_offset t p = (case t of Absolute a \<Rightarrow> a | Percent f \<Rightarrow> p * f)"

definition update_trail_stop_price :: "order \<Rightarrow> real \<Rightarrow> order" where
  \<comment> \<open>Modelled from the spec: \<^verbatim>\<open>Order.update_trail_stop_price\<close> is missing. Section 4.3.1: for
     sell orders the trail stop becomes max(old, H - trail), for buy orders min(old, L + trail);
     section 8: a trail stop that has never been set is initialised from the bar. The
     argument is the reference price the source passes (the high or the low).\<close>
  "update_trail_stop_price ord p =
     (case trail ord of
        None \<Rightarrow> ord
      | Some t \<Rightarrow>
          if side ord = ''sell'' then
            ord\<lparr>trail_stop_price :=
                  Some (case trail_stop_price ord of
                          None \<Rightarrow> p - trail_offset t p
                        | Some old \<Rightarrow> max old (p - trail_offset t p))\<rparr>
          else if side ord = ''buy'' then
            ord\<lparr>trail_stop_price :=
                  Some (case trail_stop_price ord of
                          None \<Rightarrow> p + trail_offset t p
                        | Some old \<Rightarrow> min old (p + trail_offset t p))\<rparr>
          else ord)"

definition data_source_update_datetime :: "real \<Rightarrow> state \<Rightarrow> state" where
  \<comment> \<open>Modelled from the spec: \<^verbatim>\<open>DataSourceBacktesting._update_datetime\<close> is missing. Section
     4.2 and 4.3: the data source holds the virtual clock, and the broker advances the current
     time to the value it hands over.\<close>
  "data_source_update_datetime new_datetime s = s\<lparr>datetime := new_datetime\<rparr>"

definition date :: "real \<Rightarrow> int" where
  \<comment> \<open>\<^verbatim>\<open>datetime.date()\<close>: the day a point in time lies in (time zones are not modelled).\<close>
  "date t = \<lfloor>t / 86400\<rfloor>"

subsection \<open>Clock\<close>

datatype update_dt = Timedelta real | Number real | Datetime real

definition new_datetime :: "real \<Rightarrow> update_dt \<Rightarrow> real" where
  "new_datetime now update_dt =
     (case update_dt of
        Timedelta d \<Rightarrow> now + d
      | Number x \<Rightarrow> now + x
      | Datetime t \<Rightarrow> t)"

definition update_datetime :: "update_dt \<Rightarrow> state \<Rightarrow> state" where
  "update_datetime update_dt s =
     data_source_update_datetime (new_datetime (datetime s) update_dt) s"

definition should_continue :: "state \<Rightarrow> bool" where
  "should_continue s = (if datetime s \<ge> datetime_end s then False else True)"

definition get_time_to_open :: "state \<Rightarrow> real" where
  "get_time_to_open s =
     (let now = datetime s in
      case filter (\<lambda>(market_open, market_close). now < market_close) (trading_days s) of
        [] \<Rightarrow> 0
      | (market_open, market_close) # rest \<Rightarrow>
          (let open_time = (if IS_BACKTESTING_BROKER \<and> now > market_open
                            then datetime_start s else market_open)
           in if now \<ge> open_time then 0 else open_time - now))"

definition get_time_to_close :: "state \<Rightarrow> real option" where
  "get_time_to_close s =
     (let now = datetime s in
      case filter (\<lambda>(market_open, market_close). now \<le> market_close) (trading_days s) of
        [] \<Rightarrow> Some 0
      | (market_open, market_close) # rest \<Rightarrow>
          if now < market_open then None else Some (market_close - now))"

subsection \<open>Fill rules\<close>

definition limit_order :: "real \<Rightarrow> string \<Rightarrow> real \<Rightarrow> real \<Rightarrow> real \<Rightarrow> real option" where
  "limit_order limit_price' side' open' high low =
     (if side' = ''sell'' \<and> limit_price' \<le> open' then Some open'
      else if side' = ''buy'' \<and> limit_price' \<ge> open' then Some open'
      else if low \<le> limit_price' \<and> limit_price' \<le> high then Some limit_price'
      else None)"

definition stop_order :: "real \<Rightarrow> string \<Rightarrow> real \<Rightarrow> real \<Rightarrow> real \<Rightarrow> real option" where
  "stop_order stop_price' side' open' high low =
     (if side' = ''sell'' \<and> stop_price' \<ge> open' then Some open'
      else if side' = ''buy'' \<and> stop_price' \<le> open' then Some open'
      else if low \<le> stop_price' \<and> stop_price' \<le> high then Some stop_price'
      else None)"

subsection \<open>Price of the transaction\<close>

definition call_limit_order ::
    "real option \<Rightarrow> string \<Rightarrow> real \<Rightarrow> real \<Rightarrow> real \<Rightarrow> error + real option" where
  \<comment> \<open>A price attribute that is None cannot be compared with a number.\<close>
  "call_limit_order p sd op hi lo =
     (case p of None \<Rightarrow> Inl TypeError | Some x \<Rightarrow> Inr (limit_order x sd op hi lo))"

definition call_stop_order ::
    "real option \<Rightarrow> string \<Rightarrow> real \<Rightarrow> real \<Rightarrow> real \<Rightarrow> error + real option" where
  "call_stop_order p sd op hi lo =
     (case p of None \<Rightarrow> Inl TypeError | Some x \<Rightarrow> Inr (stop_order x sd op hi lo))"

text \<open>
  The chain of \<^verbatim>\<open>if order.type == ..\<close> in \<^verbatim>\<open>process_pending_orders\<close>, for a bar that has been
  read: the price (None when the order does not fill) and the order as the branch leaves it.
\<close>

definition transaction_price :: "order \<Rightarrow> bar \<Rightarrow> error + (real option \<times> order)" where
  "transaction_price ord b =
     (if order_type ord = ''market'' then Inr (Some (bar_open b), ord)
      else if order_type ord = ''limit'' then
        (case call_limit_order (limit_price ord) (side ord) (bar_open b) (bar_high b) (bar_low b) of
           Inl e \<Rightarrow> Inl e
         | Inr price \<Rightarrow> Inr (price, ord))
      else if order_type ord = ''stop'' then
        (case call_stop_order (stop_price ord) (side ord) (bar_open b) (bar_high b) (bar_low b) of
           Inl e \<Rightarrow> Inl e
         | Inr price \<Rightarrow> Inr (price, ord))
      else if order_type ord = ''stop_limit'' then
        (if \<not> price_triggered ord then
           (case call_stop_order (stop_price ord) (side ord) (bar_open b) (bar_high b) (bar_low b) of
              Inl e \<Rightarrow> Inl e
            | Inr None \<Rightarrow> Inr (None, ord)
            | Inr (Some price) \<Rightarrow>
                (case call_limit_order (limit_price ord) (side ord) price (bar_high b) (bar_low b) of
                   Inl e \<Rightarrow> Inl e
                 | Inr price' \<Rightarrow> Inr (price', ord\<lparr>price_triggered := True\<rparr>)))
         else
           (case call_limit_order (limit_price ord) (side ord) (bar_open b) (bar_high b) (bar_low b) of
              Inl e \<Rightarrow> Inl e
            | Inr price \<Rightarrow> Inr (price, ord)))
      else if order_type ord = ''trailing_stop'' then
        (let price = (case trail_stop_price ord of
                        None \<Rightarrow> None
                      | Some t \<Rightarrow> if t \<noteq> 0
                                  then stop_order t (side ord) (bar_open b) (bar_high b) (bar_low b)
                                  else None)
         in if side ord = ''sell'' then Inr (price, update_trail_stop_price ord (bar_high b))
            else if side ord = ''buy'' then Inr (price, update_trail_stop_price ord (bar_low b))
            else Inr (price, ord))
      else Inl ValueError)"

text \<open>
  The same chain when no branch has assigned \<^verbatim>\<open>open\<close>, \<^verbatim>\<open>high\<close> and \<^verbatim>\<open>low\<close> (a data source that
  is neither CCXT, YAHOO nor PANDAS): the first read of one of them raises.
\<close>

definition transaction_price_unbound :: "order \<Rightarrow> error + (real option \<times> order)" where
  "transaction_price_unbound ord =
     (if order_type ord \<in> set [''market'', ''limit'', ''stop'', ''stop_limit'']
      then Inl UnboundLocalError
      else if order_type ord = ''trailing_stop'' then
        (if truthy (trail_stop_price ord) then Inl UnboundLocalError
         else if side ord = ''sell'' \<or> side ord = ''buy'' then Inl UnboundLocalError
         else Inr (None, ord))
      else Inl ValueError)"

subsection \<open>Reading the bar\<close>

datatype fetched = Unbound | Cancel | Row bar

definition fetch_ohlc :: "feed \<Rightarrow> state \<Rightarrow> order \<Rightarrow> error + fetched" where
  "fetch_ohlc fd s ord =
     (if upper (SOURCE s) \<in> set [''CCXT'', ''YAHOO''] then
        (case get_historical_prices fd (asset ord) (quote ord) 1 of
           None \<Rightarrow> Inl AttributeError
         | Some df \<Rightarrow> (case df of [] \<Rightarrow> Inl IndexError | r # rs \<Rightarrow> Inr (Row (last df))))
      else if SOURCE s = ''PANDAS'' then
        (let ohlc = get_historical_prices fd (asset ord) (quote ord) 2 in
         case ohlc of
           None \<Rightarrow> Inl AttributeError
         | Some df_original \<Rightarrow>
             (let df = filter (\<lambda>r. bar_index r \<ge> datetime s) df_original;
                  df = (if df = []
                        then (case df_original of [] \<Rightarrow> [] | r # rs \<Rightarrow> [last df_original])
                        else df)
              in if ohlc = None then Inr Cancel
                 else (case df of [] \<Rightarrow> Inl IndexError | r # rs \<Rightarrow> Inr (Row r))))
      else Inr Unbound)"

subsection \<open>Trade cost\<close>

fun trade_cost_loop :: "trading_fee list \<Rightarrow> order \<Rightarrow> real \<Rightarrow> real \<Rightarrow> real" where
  "trade_cost_loop [] ord price tc = tc"
| "trade_cost_loop (trading_fee # fees) ord price tc =
     trade_cost_loop fees ord price
       (if taker trading_fee = True \<and> order_type ord \<in> set [''market'', ''stop'']
        then tc + flat_fee trading_fee + price * quantity ord * percent_fee trading_fee
        else if maker trading_fee = True \<and> order_type ord \<in> set [''limit'', ''stop_limit'']
        then tc + flat_fee trading_fee + price * quantity ord * percent_fee trading_fee
        else tc)"

definition calculate_trade_cost :: "order \<Rightarrow> state \<Rightarrow> real \<Rightarrow> real" where
  "calculate_trade_cost ord s price =
     (let trading_fees = (if side ord = ''buy'' then buy_trading_fees s
                          else if side ord = ''sell'' then sell_trading_fees s
                          else [])
      in trade_cost_loop trading_fees ord price 0)"

subsection \<open>Derived orders\<close>

definition alloc :: "order \<Rightarrow> state \<Rightarrow> nat \<times> state" where
  \<comment> \<open>A new order object: it gets the first free address.\<close>
  "alloc ord s =
     (next_id s, s\<lparr>orders := (orders s)(next_id s := ord), next_id := Suc (next_id s)\<rparr>)"

definition set_dependent_order :: "nat \<Rightarrow> nat \<Rightarrow> state \<Rightarrow> state" where
  "set_dependent_order i j s =
     s\<lparr>orders := (orders s)(i := (orders s i)\<lparr>dependent_order := Some j\<rparr>)\<rparr>"

definition flatten_order :: "nat \<Rightarrow> state \<Rightarrow> nat list \<times> state" where
  "flatten_order i s =
     (let ord = orders s i in
      if order_class ord = [] then
        (if truthy (stop_price ord) then
           (let (n, s1) = alloc (Order (strategy ord) (asset ord) (quantity ord) (side ord)
                                   (stop_price ord) None (quote ord)) s
            in ([i, n], s1))
         else ([i], s))
      else if order_class ord = ''oco'' then
        (let (n1, s1) = alloc (Order (strategy ord) (asset ord) (quantity ord) (side ord)
                                 (stop_loss_price ord) None (quote ord)) s;
             (n2, s2) = alloc (Order (strategy ord) (asset ord) (quantity ord) (side ord)
                                 None (take_profit_price ord) (quote ord)) s1
         in ([n1, n2], set_dependent_order n2 n1 (set_dependent_order n1 n2 s2)))
      else if order_class ord \<in> set [''bracket'', ''oto''] then
        (let sd = (if side ord = ''buy'' then ''sell'' else ''buy'');
             (l1, s1) =
               (if order_class ord = ''bracket''
                   \<or> (order_class ord = ''oto'' \<and> truthy (stop_loss_price ord))
                then (let (n, s') = alloc (Order (strategy ord) (asset ord) (quantity ord) sd
                                            (stop_loss_price ord) (stop_loss_limit_price ord)
                                            (quote ord)) s
                      in ([n], s'))
                else ([], s));
             (l2, s2) =
               (if order_class ord = ''bracket''
                   \<or> (order_class ord = ''oto'' \<and> truthy (take_profit_price ord))
                then (let (n, s') = alloc (Order (strategy ord) (asset ord) (quantity ord) sd
                                            None (take_profit_price ord) (quote ord)) s1
                      in ([n], s'))
                else ([], s1))
         in if order_class ord = ''bracket''
            then (case (l1, l2) of
                    ([n1], [n2]) \<Rightarrow>
                      (l1 @ l2, set_dependent_order n2 n1 (set_dependent_order n1 n2 s2))
                  | _ \<Rightarrow> (l1 @ l2, s2))
            else (l1 @ l2, s2))
      else ([], s))"

subsection \<open>Filling and canceling\<close>

definition cancel_order :: "nat \<Rightarrow> state \<Rightarrow> state" where
  "cancel_order i s = dispatch (Canceled_order i) s"

definition set_cash_position :: "real \<Rightarrow> state \<Rightarrow> state" where
  \<comment> \<open>Modelled from the spec: \<^verbatim>\<open>Strategy._set_cash_position\<close> is missing. Section 3: cash is
     one scalar of the strategy, changed only through this call.\<close>
  "set_cash_position c s = s\<lparr>cash := c\<rparr>"

text \<open>
  The branch \<^verbatim>\<open>if price is not None\<close> of \<^verbatim>\<open>process_pending_orders\<close>, in its four steps: the
  sibling is marked and canceled, a bracket or oto parent is flattened, the trade cost is
  taken from the cash and stored in the order, and the fill is dispatched.
\<close>

definition mark_and_cancel_dependent :: "nat \<Rightarrow> state \<Rightarrow> state" where
  "mark_and_cancel_dependent i s =
     (case dependent_order (orders s i) of
        None \<Rightarrow> s
      | Some d \<Rightarrow>
          cancel_order d
            (s\<lparr>orders := (orders s)(d := (orders s d)\<lparr>dependent_order_filled := True\<rparr>)\<rparr>))"

definition append_flattened :: "nat \<Rightarrow> state \<Rightarrow> state" where
  "append_flattened i s =
     (if order_class (orders s i) \<in> set [''bracket'', ''oto'']
      then (let (ids, s') = flatten_order i s in s'\<lparr>new_orders := new_orders s' @ ids\<rparr>)
      else s)"

definition charge_trade_cost :: "nat \<Rightarrow> real \<Rightarrow> state \<Rightarrow> state" where
  "charge_trade_cost i price s =
     (let tc = calculate_trade_cost (orders s i) s price;
          new_cash = cash s - tc;
          s1 = set_cash_position new_cash s
      in s1\<lparr>orders := (orders s1)(i := (orders s1 i)\<lparr>trade_cost := Some tc\<rparr>)\<rparr>)"

definition fill_order :: "nat \<Rightarrow> real \<Rightarrow> real \<Rightarrow> state \<Rightarrow> state" where
  "fill_order i price filled_quantity s =
     dispatch (Filled_order i price filled_quantity)
       (charge_trade_cost i price (append_flattened i (mark_and_cancel_dependent i s)))"

definition store_order :: "nat \<Rightarrow> order \<Rightarrow> state \<Rightarrow> state" where
  \<comment> \<open>The order object at address \<open>i\<close> after the assignments a branch made to its attributes.\<close>
  "store_order i ord s = s\<lparr>orders := (orders s)(i := ord)\<rparr>"

definition after_price :: "nat \<Rightarrow> real \<Rightarrow> error + (real option \<times> order) \<Rightarrow> state \<Rightarrow> result" where
  "after_price i filled_quantity r s =
     (case r of
        Inl e \<Rightarrow> Inl (e, s)
      | Inr (price, ord') \<Rightarrow>
          (let s1 = store_order i ord' s in
           case price of
             None \<Rightarrow> Inr s1
           | Some p \<Rightarrow> Inr (fill_order i p filled_quantity s1)))"

text \<open>One turn of the loop \<^verbatim>\<open>for order in pending_orders\<close>.\<close>

definition process_order :: "feed \<Rightarrow> nat \<Rightarrow> state \<Rightarrow> result" where
  "process_order fd i s =
     (let ord = orders s i in
      if dependent_order_filled ord \<or> status ord = CANCELED_ORDER then Inr s
      else
        (let filled_quantity = quantity ord in
         case fetch_ohlc fd s ord of
           Inl e \<Rightarrow> Inl (e, s)
         | Inr Cancel \<Rightarrow> Inr (cancel_order i s)
         | Inr Unbound \<Rightarrow> after_price i filled_quantity (transaction_price_unbound ord) s
         | Inr (Row b) \<Rightarrow> after_price i filled_quantity (transaction_price ord b) s))"

fun process_orders :: "feed \<Rightarrow> nat list \<Rightarrow> state \<Rightarrow> result" where
  "process_orders fd [] s = Inr s"
| "process_orders fd (i # pending) s =
     (case process_order fd i s of
        Inl e \<Rightarrow> Inl e
      | Inr s' \<Rightarrow> process_orders fd pending s')"

subsection \<open>Cash settlement of expired options\<close>

definition cash_settle_options_contract :: "feed \<Rightarrow> position \<Rightarrow> state \<Rightarrow> result" where
  "cash_settle_options_contract fd pos s =
     (if \<not> IS_BACKTESTING_BROKER then Inr s
      else if asset_type (position_asset pos) \<noteq> ''option'' then Inr s
      else
        (let underlying_price = get_last_price fd (symbol (position_asset pos)) ''stock'';
             profit_loss_per_contract =
               (if right (position_asset pos) = ''CALL''
                then underlying_price - strike (position_asset pos)
                else strike (position_asset pos) - underlying_price);
             profit_loss = profit_loss_per_contract * position_quantity pos
                             * multiplier (position_asset pos);
             profit_loss = (if position_quantity pos > 0 \<and> profit_loss < 0 then 0
                            else if position_quantity pos < 0 \<and> profit_loss > 0 then 0
                            else profit_loss);
             new_cash = cash s + profit_loss;
             s1 = set_cash_position new_cash s;
             sd = (if position_quantity pos > 0 then ''sell'' else ''buy'');
             ord = create_order s1 (position_asset pos) \<bar>position_quantity pos\<bar> sd
         in if position_quantity pos = 0 \<or> multiplier (position_asset pos) = 0
            then Inl (ZeroDivisionError, s1)
            else Inr (dispatch
                        (Cash_settled ord
                           \<bar>profit_loss / position_quantity pos / multiplier (position_asset pos)\<bar>
                           \<bar>position_quantity pos\<bar>) s1)))"

fun expire_positions :: "feed \<Rightarrow> position list \<Rightarrow> state \<Rightarrow> result" where
  "expire_positions fd [] s = Inr s"
| "expire_positions fd (pos # rest) s =
     (case expiration (position_asset pos) of
        None \<Rightarrow> expire_positions fd rest s
      | Some exp_day \<Rightarrow>
          if exp_day \<le> date (datetime s) then
            (case get_time_to_close s of
               None \<Rightarrow> expire_positions fd rest s
             | Some time_to_close \<Rightarrow>
                 (let seconds_before_closing = minutes_before_closing s * 60 in
                  if exp_day = date (datetime s) \<and> time_to_close > seconds_before_closing
                  then expire_positions fd rest s
                  else (case cash_settle_options_contract fd pos s of
                          Inl e \<Rightarrow> Inl e
                        | Inr s' \<Rightarrow> expire_positions fd rest s')))
          else expire_positions fd rest s)"

definition process_expired_option_contracts :: "feed \<Rightarrow> state \<Rightarrow> result" where
  "process_expired_option_contracts fd s =
     (if SOURCE s \<noteq> ''PANDAS'' then Inr s
      else expire_positions fd (positions s) s)"

subsection \<open>The pass over the pending orders, and waiting for the market\<close>

definition process_pending_orders :: "feed \<Rightarrow> state \<Rightarrow> result" where
  "process_pending_orders fd s =
     (case process_expired_option_contracts fd s of
        Inl e \<Rightarrow> Inl e
      | Inr s1 \<Rightarrow>
          (let pending_orders =
                 filter (\<lambda>i. status (orders s1 i) \<in> set [''unprocessed'', ''new''])
                   (tracked_orders s1)
           in if length pending_orders = 0 then Inr s1
              else process_orders fd pending_orders s1))"

definition await_market_to_open :: "feed \<Rightarrow> real option \<Rightarrow> state \<Rightarrow> result" where
  "await_market_to_open fd timedelta s =
     (if SOURCE s = ''PANDAS'' \<and> timestep s = ''day'' then Inr s
      else
        (case process_pending_orders fd s of
           Inl e \<Rightarrow> Inl e
         | Inr s1 \<Rightarrow>
             (let time_to_open = get_time_to_open s1;
                  time_to_open = (case timedelta of
                                    None \<Rightarrow> time_to_open
                                  | Some m \<Rightarrow> if m \<noteq> 0 then time_to_open - 60 * m
                                              else time_to_open)
              in Inr (update_datetime (Number time_to_open) s1))))"

definition await_market_to_close :: "feed \<Rightarrow> real option \<Rightarrow> state \<Rightarrow> result" where
  "await_market_to_close fd timedelta s =
     (if SOURCE s = ''PANDAS'' \<and> timestep s = ''day'' then Inr s
      else
        (case process_pending_orders fd s of
           Inl e \<Rightarrow> Inl e
         | Inr s1 \<Rightarrow>
             (let time_to_close = (case get_time_to_close s1 of None \<Rightarrow> 0 | Some r \<Rightarrow> r);
                  time_to_close = (case timedelta of
                                     None \<Rightarrow> time_to_close
                                   | Some m \<Rightarrow> time_to_close - 60 * m)
              in Inr (update_datetime (Number time_to_close) s1))))"

subsection \<open>A mutually dependent pair\<close>

text \<open>
  Two distinct order objects that live in the heap and name each other as dependent order,
  as the two children of an OCO order do.
\<close>

definition oco_pair :: "nat \<Rightarrow> nat \<Rightarrow> state \<Rightarrow> bool" where
  "oco_pair a b s =
     (a \<noteq> b \<and> a < next_id s \<and> b < next_id s
      \<and> dependent_order (orders s a) = Some b \<and> dependent_order (orders s b) = Some a)"

definition is_filled :: "nat \<Rightarrow> state \<Rightarrow> bool" where
  "is_filled i s = (status (orders s i) = FILLED_ORDER)"

definition is_canceled :: "nat \<Rightarrow> state \<Rightarrow> bool" where
  "is_canceled i s = (status (orders s i) = CANCELED_ORDER)"

definition sibling_flagged :: "nat \<Rightarrow> state \<Rightarrow> bool" where
  "sibling_flagged i s = dependent_order_filled (orders s i)"

text \<open>
  The state of a pair between two turns of the loop: not both are filled, and the sibling
  of a filled order carries the flag.
\<close>

definition oco_inv :: "nat \<Rightarrow> nat \<Rightarrow> state \<Rightarrow> bool" where
  "oco_inv a b s =
     (oco_pair a b s
      \<and> \<not> (is_filled a s \<and> is_filled b s)
      \<and> (is_filled a s \<longrightarrow> sibling_flagged b s)
      \<and> (is_filled b s \<longrightarrow> sibling_flagged a s))"

definition new_events :: "state \<Rightarrow> state \<Rightarrow> event list" where
  \<comment> \<open>What has been dispatched between an earlier and a later state.\<close>
  "new_events s s' = drop (length (events s)) (events s')"

text \<open>
  What happens to a pair between an earlier state and a later one: the flag and the
  cancellation of \<open>b\<close> and the fill of \<open>a\<close> are kept, and if \<open>a\<close> has been filled in between,
  then \<open>b\<close> carries the flag, is canceled, and its cancellation has been dispatched in between.
\<close>

definition oco_progress :: "nat \<Rightarrow> nat \<Rightarrow> state \<Rightarrow> state \<Rightarrow> bool" where
  "oco_progress a b s s' =
     ((sibling_flagged b s \<longrightarrow> sibling_flagged b s')
      \<and> (is_canceled b s \<longrightarrow> is_canceled b s')
      \<and> (is_filled a s \<longrightarrow> is_filled a s')
      \<and> (\<not> is_filled a s \<and> is_filled a s' \<longrightarrow>
            sibling_flagged b s' \<and> is_canceled b s'
            \<and> Canceled_order b \<in> set (new_events s s')))"

definition oco_step :: "nat \<Rightarrow> nat \<Rightarrow> state \<Rightarrow> state \<Rightarrow> bool" where
  "oco_step a b s s' =
     (oco_inv a b s' \<and> (\<exists>evs. events s' = events s @ evs)
      \<and> oco_progress a b s s' \<and> oco_progress b a s s')"

subsection \<open>What a turn of the loop leaves alone\<close>

definition same_terms :: "order \<Rightarrow> order \<Rightarrow> bool" where
  \<comment> \<open>Two versions of an order object that differ at most in its runtime state: status,
     price_triggered, trail stop price, trade cost and the flag of the sibling.\<close>
  "same_terms ord ord' =
     (strategy ord' = strategy ord \<and> asset ord' = asset ord \<and> quantity ord' = quantity ord
      \<and> side ord' = side ord \<and> order_type ord' = order_type ord
      \<and> order_class ord' = order_class ord \<and> limit_price ord' = limit_price ord
      \<and> stop_price ord' = stop_price ord \<and> stop_loss_price ord' = stop_loss_price ord
      \<and> stop_loss_limit_price ord' = stop_loss_limit_price ord
      \<and> take_profit_price ord' = take_profit_price ord \<and> trail ord' = trail ord
      \<and> quote ord' = quote ord \<and> dependent_order ord' = dependent_order ord)"

definition heap_grows :: "state \<Rightarrow> state \<Rightarrow> bool" where
  \<comment> \<open>Objects are only added to the heap, and the ones that were there keep their terms.\<close>
  "heap_grows s s' =
     (next_id s \<le> next_id s' \<and> (\<forall>j < next_id s. same_terms (orders s j) (orders s' j)))"

definition same_broker :: "state \<Rightarrow> state \<Rightarrow> bool" where
  \<comment> \<open>The data source, the clock, the calendar, the collections the loop reads and the fee
     lists of the strategy are the same.\<close>
  "same_broker s s' =
     (SOURCE s' = SOURCE s \<and> timestep s' = timestep s \<and> datetime s' = datetime s
      \<and> datetime_start s' = datetime_start s \<and> datetime_end s' = datetime_end s
      \<and> trading_days s' = trading_days s \<and> tracked_orders s' = tracked_orders s
      \<and> positions s' = positions s \<and> buy_trading_fees s' = buy_trading_fees s
      \<and> sell_trading_fees s' = sell_trading_fees s
      \<and> minutes_before_closing s' = minutes_before_closing s)"

subsection \<open>Sample data\<close>

definition demo_asset :: asset where
  "demo_asset = \<lparr>symbol = ''SPY'', asset_type = ''stock'', expiration = None, strike = 0,
                  right = [], multiplier = 1\<rparr>"

definition demo_option :: asset where
  "demo_option = \<lparr>symbol = ''SPY'', asset_type = ''option'', expiration = Some 0, strike = 100,
                   right = ''CALL'', multiplier = 100\<rparr>"

definition demo_bar :: bar where
  "demo_bar = \<lparr>bar_index = 1000, bar_open = 100, bar_high = 104, bar_low = 94,
                bar_close = 100, bar_volume = 5000\<rparr>"

definition demo_feed :: feed where
  "demo_feed = \<lparr>get_historical_prices = (\<lambda>a q n. Some [demo_bar]),
                 get_last_price = (\<lambda>sym ty. 107)\<rparr>"

definition silent_feed :: feed where
  \<comment> \<open>A data source that has no bar for any asset.\<close>
  "silent_feed = \<lparr>get_historical_prices = (\<lambda>a q n. None), get_last_price = (\<lambda>sym ty. 107)\<rparr>"

definition demo_fee :: trading_fee where
  "demo_fee = \<lparr>flat_fee = 1, percent_fee = 1 / 100, maker = True, taker = True\<rparr>"

definition demo_order :: "string \<Rightarrow> real option \<Rightarrow> real option \<Rightarrow> order" where
  \<comment> \<open>A sell order of 10 shares, already accepted by the broker.\<close>
  "demo_order ty sp lp =
     (Order ''demo'' demo_asset 10 ''sell'' sp lp None)\<lparr>order_type := ty, status := ''new''\<rparr>"

definition demo_state :: "string \<Rightarrow> (nat \<Rightarrow> order) \<Rightarrow> state" where
  \<comment> \<open>A broker at time 1000, sixty seconds before the close, tracking the orders at 0 and 1.\<close>
  "demo_state src heap =
     \<lparr>SOURCE = src, timestep = ''minute'', datetime = 1000, datetime_start = 0,
      datetime_end = 100000, trading_days = [(0, 1060)], orders = heap, next_id = 2,
      tracked_orders = [0, 1], new_orders = [], positions = [], cash = 5000,
      buy_trading_fees = [demo_fee], sell_trading_fees = [demo_fee],
      minutes_before_closing = 1, events = []\<rparr>"

definition stop_limit_demo :: state where
  \<comment> \<open>Sell stop-limit orders, stop 95 and limit 110, on the sample bar.\<close>
  "stop_limit_demo = demo_state ''PANDAS'' (\<lambda>i. demo_order ''stop_limit'' (Some 95) (Some 110))"

definition trailing_demo :: state where
  \<comment> \<open>Sell trailing stops with a trail of 3 whose trail stop price has never been set.\<close>
  "trailing_demo =
     demo_state ''PANDAS'' (\<lambda>i. (demo_order ''trailing_stop'' None None)\<lparr>trail := Some (Absolute 3)\<rparr>)"

definition limit_demo :: state where
  \<comment> \<open>Sell limit orders at 102 on the sample bar.\<close>
  "limit_demo = demo_state ''PANDAS'' (\<lambda>i. demo_order ''limit'' None (Some 102))"

definition demo_position :: position where
  \<comment> \<open>Long one call with strike 100; the sample feed prices the underlying at 107.\<close>
  "demo_position = \<lparr>position_asset = demo_option, position_quantity = 1\<rparr>"

definition yahoo_demo :: state where
  \<comment> \<open>The same sell limit orders, on a YAHOO data source.\<close>
  "yahoo_demo = demo_state ''YAHOO'' (\<lambda>i. demo_order ''limit'' None (Some 102))"

definition idle_demo :: state where
  \<comment> \<open>The sample broker with no tracked order: at time 1000, inside the session from 0 to
     1060.\<close>
  "idle_demo = (demo_state ''PANDAS'' (\<lambda>i. demo_order ''limit'' None (Some 102)))
                 \<lparr>tracked_orders := []\<rparr>"

definition oco_demo :: state where
  \<comment> \<open>The two children of an OCO sell order: a stop at 95 and a limit at 105.\<close>
  "oco_demo =
     demo_state ''PANDAS''
       (\<lambda>i. if i = 0 then (demo_order ''stop'' (Some 95) None)\<lparr>dependent_order := Some 1\<rparr>
             else (demo_order ''limit'' None (Some 105))\<lparr>dependent_order := Some 0\<rparr>)"

section \<open>Properties\<close>

subsection \<open>Stop and limit rules\<close>

text \<open>
  C1. A sell stop with stop price S on a bar with open, high and low fills at the open when
  S is at or above the open, otherwise at S when S lies between low and high, otherwise not
  at all; a buy stop fills at the open when S is at or below the open, otherwise at S when S
  lies between low and high, otherwise not at all. A stop equal to the open takes the gap
  branch and fills at the open.
\<close>

theorem stop_order_rule:
  "stop_order S ''sell'' op hi lo =
     (if S \<ge> op then Some op else if lo \<le> S \<and> S \<le> hi then Some S else None)
   \<and> stop_order S ''buy'' op hi lo =
     (if S \<le> op then Some op else if lo \<le> S \<and> S \<le> hi then Some S else None)
   \<and> stop_order op ''sell'' op hi lo = Some op
   \<and> stop_order op ''buy'' op hi lo = Some op"
  by (simp add: stop_order_def)

theorem stop_order_rule_witness:
  "stop_order 99 ''sell'' 100 101 98 = Some 99 \<and> stop_order 100 ''buy'' 100 101 98 = Some 100"
  using stop_order_rule [of 99 100 101 98] stop_order_rule [of 100 100 101 98] by simp

text \<open>
  C2. A sell limit with limit price P fills at the open when P is at or below the open,
  otherwise at P when P lies between low and high, otherwise not at all; a buy limit fills
  at the open when P is at or above the open, otherwise at P when P lies between low and
  high, otherwise not at all. On a bar whose open lies between its low and its high, a buy
  limit equal to the low and a sell limit equal to the high fill at the limit price.
\<close>

theorem limit_order_rule:
  "limit_order P ''sell'' op hi lo =
     (if P \<le> op then Some op else if lo \<le> P \<and> P \<le> hi then Some P else None)
   \<and> limit_order P ''buy'' op hi lo =
     (if P \<ge> op then Some op else if lo \<le> P \<and> P \<le> hi then Some P else None)
   \<and> (lo \<le> op \<and> op \<le> hi \<longrightarrow>
        limit_order lo ''buy'' op hi lo = Some lo \<and> limit_order hi ''sell'' op hi lo = Some hi)"
  by (auto simp add: limit_order_def)

theorem limit_order_rule_witness:
  "(93::real) \<le> 94 \<and> (94::real) \<le> 96 \<and> limit_order 95 ''buy'' 94 96 93 = Some 94
   \<and> limit_order 93 ''buy'' 94 96 93 = Some 93 \<and> limit_order 96 ''sell'' 94 96 93 = Some 96"
  using limit_order_rule [of 95 94 96 93] limit_order_rule [of 93 94 96 93] by simp

subsection \<open>The log of events\<close>

lemma events_set_status [simp]: "events (set_status i st s) = events s"
  by (simp add: set_status_def)

lemma events_process_trade_event [simp]: "events (process_trade_event ev s) = events s"
  by (simp add: process_trade_event_def split: event.splits option.splits)

lemma events_dispatch [simp]: "events (dispatch ev s) = events s @ [ev]"
  by (simp add: dispatch_def)

lemma events_flatten_order [simp]: "events (snd (flatten_order i s)) = events s"
  by (simp add: flatten_order_def alloc_def set_dependent_order_def Let_def
        split: prod.splits list.splits)

lemma events_append_flattened [simp]: "events (append_flattened i s) = events s"
  using events_flatten_order [of i s]
  by (cases "flatten_order i s") (simp add: append_flattened_def)

lemma events_charge_trade_cost [simp]: "events (charge_trade_cost i p s) = events s"
  by (simp add: charge_trade_cost_def set_cash_position_def Let_def)

lemma events_mark_and_cancel_dependent:
  "events (mark_and_cancel_dependent i s) =
     events s @ (case dependent_order (orders s i) of None \<Rightarrow> [] | Some d \<Rightarrow> [Canceled_order d])"
  by (simp add: mark_and_cancel_dependent_def cancel_order_def split: option.splits)

lemma events_fill_order:
  "events (fill_order i p q s) =
     events s @ (case dependent_order (orders s i) of None \<Rightarrow> [] | Some d \<Rightarrow> [Canceled_order d])
       @ [Filled_order i p q]"
  by (simp add: fill_order_def events_mark_and_cancel_dependent)

lemma store_order_same [simp]: "store_order i (orders s i) s = s"
  by (simp add: store_order_def)

subsection \<open>Stop-limit orders\<close>

text \<open>
  C3. A pending stop_limit order is evaluated on a bar. While it is not triggered, the stop
  rule comes first: without a trigger price nothing changes; with a trigger price the order
  is marked as triggered and the limit rule is evaluated on the same bar with the trigger
  price in the place of the open. If that gives a price, the order fills at it; if not, the
  order stays pending (same status, nothing dispatched) and is triggered. An order that is
  already triggered follows the limit rule on the open, high and low of the bar.
\<close>

theorem stop_limit_two_phase:
  assumes "order_type (orders s i) = ''stop_limit''"
    and "\<not> dependent_order_filled (orders s i)" and "status (orders s i) \<noteq> CANCELED_ORDER"
    and "fetch_ohlc fd s (orders s i) = Inr (Row b)"
    and "stop_price (orders s i) = Some S" and "limit_price (orders s i) = Some P"
    and "s_trig = store_order i ((orders s i)\<lparr>price_triggered := True\<rparr>) s"
  shows
   "(\<not> price_triggered (orders s i) \<longrightarrow>
       (case stop_order S (side (orders s i)) (bar_open b) (bar_high b) (bar_low b) of
          None \<Rightarrow> process_order fd i s = Inr s
        | Some trigger_price \<Rightarrow>
            (case limit_order P (side (orders s i)) trigger_price (bar_high b) (bar_low b) of
               None \<Rightarrow> process_order fd i s = Inr s_trig
                        \<and> price_triggered (orders s_trig i)
                        \<and> status (orders s_trig i) = status (orders s i)
                        \<and> events s_trig = events s
             | Some p \<Rightarrow> process_order fd i s = Inr (fill_order i p (quantity (orders s i)) s_trig)
                        \<and> last (events (fill_order i p (quantity (orders s i)) s_trig))
                            = Filled_order i p (quantity (orders s i)))))
    \<and> (price_triggered (orders s i) \<longrightarrow>
       (case limit_order P (side (orders s i)) (bar_open b) (bar_high b) (bar_low b) of
          None \<Rightarrow> process_order fd i s = Inr s
        | Some p \<Rightarrow> process_order fd i s = Inr (fill_order i p (quantity (orders s i)) s)
                    \<and> last (events (fill_order i p (quantity (orders s i)) s))
                        = Filled_order i p (quantity (orders s i))))"
  using assms
  by (simp add: process_order_def after_price_def transaction_price_def call_stop_order_def
        call_limit_order_def events_fill_order store_order_def Let_def split: option.splits)

lemma demo_fetch:
  "fetch_ohlc demo_feed (demo_state ''PANDAS'' h) ord = Inr (Row demo_bar)"
  by (simp add: fetch_ohlc_def demo_feed_def demo_state_def upper_def demo_bar_def)

theorem stop_limit_two_phase_witness:
  "order_type (orders stop_limit_demo 0) = ''stop_limit''
   \<and> \<not> dependent_order_filled (orders stop_limit_demo 0)
   \<and> status (orders stop_limit_demo 0) \<noteq> CANCELED_ORDER
   \<and> fetch_ohlc demo_feed stop_limit_demo (orders stop_limit_demo 0) = Inr (Row demo_bar)
   \<and> stop_price (orders stop_limit_demo 0) = Some 95
   \<and> limit_price (orders stop_limit_demo 0) = Some 110
   \<and> \<not> price_triggered (orders stop_limit_demo 0)
   \<and> stop_order 95 ''sell'' 100 104 94 = Some 95
   \<and> limit_order 110 ''sell'' 95 104 94 = None
   \<and> process_order demo_feed 0 stop_limit_demo
       = Inr (store_order 0 ((orders stop_limit_demo 0)\<lparr>price_triggered := True\<rparr>)
                stop_limit_demo)"
  using stop_limit_two_phase [of stop_limit_demo 0 demo_feed demo_bar 95 110
          "store_order 0 ((orders stop_limit_demo 0)\<lparr>price_triggered := True\<rparr>) stop_limit_demo"]
    demo_fetch [of "\<lambda>i. demo_order ''stop_limit'' (Some 95) (Some 110)"
                   "demo_order ''stop_limit'' (Some 95) (Some 110)"]
  by (simp add: stop_limit_demo_def demo_order_def Order_def CANCELED_ORDER_def stop_order_def
        limit_order_def demo_state_def demo_bar_def)

subsection \<open>Trailing stops\<close>

lemma transaction_price_trailing:
  assumes "order_type ord = ''trailing_stop''"
    and "side ord = ''sell'' \<or> side ord = ''buy''"
  shows "transaction_price ord b =
     Inr (case trail_stop_price ord of
            None \<Rightarrow> None
          | Some t \<Rightarrow> if t \<noteq> 0 then stop_order t (side ord) (bar_open b) (bar_high b) (bar_low b)
                      else None,
          update_trail_stop_price ord (if side ord = ''sell'' then bar_high b else bar_low b))"
  using assms by (auto simp add: transaction_price_def)

lemma process_order_row:
  assumes "\<not> dependent_order_filled (orders s i)" and "status (orders s i) \<noteq> CANCELED_ORDER"
    and "fetch_ohlc fd s (orders s i) = Inr (Row b)"
  shows "process_order fd i s =
           after_price i (quantity (orders s i)) (transaction_price (orders s i) b) s"
  using assms by (simp add: process_order_def Let_def)

lemma update_trail_stop_price_value:
  assumes "trail ord = Some tr" and "side ord = ''sell'' \<or> side ord = ''buy''"
  shows "trail_stop_price (update_trail_stop_price ord p) =
     Some (case trail_stop_price ord of
             None \<Rightarrow> (if side ord = ''sell'' then p - trail_offset tr p else p + trail_offset tr p)
           | Some t \<Rightarrow> (if side ord = ''sell'' then max t (p - trail_offset tr p)
                        else min t (p + trail_offset tr p)))"
  using assms by (auto simp add: update_trail_stop_price_def split: option.splits)

lemma update_trail_stop_price_status [simp]:
  "status (update_trail_stop_price ord p) = status ord"
  by (simp add: update_trail_stop_price_def split: option.splits)

text \<open>
  C4. A pending trailing_stop order of side sell or buy is evaluated on a bar. The stop rule
  is applied to the trail stop price the order had before the bar, and only when one is set
  (and is not 0, which Python takes for unset); the trail is updated afterwards, from the
  high of the bar for a sell order and from its low for a buy order. So on the first bar of
  an order whose trail stop price is unset nothing fills (the order keeps its status and
  nothing is dispatched) and the trail stop price is initialised from that bar.
\<close>

theorem trailing_stop_fill_then_update:
  assumes "order_type (orders s i) = ''trailing_stop''"
    and "\<not> dependent_order_filled (orders s i)" and "status (orders s i) \<noteq> CANCELED_ORDER"
    and "fetch_ohlc fd s (orders s i) = Inr (Row b)"
    and "trail (orders s i) = Some tr"
    and "side (orders s i) = ''sell'' \<or> side (orders s i) = ''buy''"
    and "ref = (if side (orders s i) = ''sell'' then bar_high b else bar_low b)"
    and "s_upd = store_order i (update_trail_stop_price (orders s i) ref) s"
  shows
   "(trail_stop_price (orders s i) = None \<longrightarrow>
       process_order fd i s = Inr s_upd
       \<and> events s_upd = events s
       \<and> status (orders s_upd i) = status (orders s i)
       \<and> trail_stop_price (orders s_upd i) =
           Some (if side (orders s i) = ''sell'' then bar_high b - trail_offset tr (bar_high b)
                 else bar_low b + trail_offset tr (bar_low b)))
    \<and> (\<forall>t. trail_stop_price (orders s i) = Some t \<and> t \<noteq> 0 \<longrightarrow>
         (case stop_order t (side (orders s i)) (bar_open b) (bar_high b) (bar_low b) of
            None \<Rightarrow> process_order fd i s = Inr s_upd
          | Some p \<Rightarrow> process_order fd i s = Inr (fill_order i p (quantity (orders s i)) s_upd))
         \<and> trail_stop_price (orders s_upd i) =
             Some (if side (orders s i) = ''sell''
                   then max t (bar_high b - trail_offset tr (bar_high b))
                   else min t (bar_low b + trail_offset tr (bar_low b))))"
proof -
  have tp: "transaction_price (orders s i) b =
        Inr (case trail_stop_price (orders s i) of
                None \<Rightarrow> None
              | Some t \<Rightarrow> if t \<noteq> 0
                          then stop_order t (side (orders s i)) (bar_open b) (bar_high b) (bar_low b)
                          else None,
              update_trail_stop_price (orders s i) ref)"
    unfolding assms(7) using assms(1,6) by (rule transaction_price_trailing)
  have po: "process_order fd i s =
      after_price i (quantity (orders s i)) (transaction_price (orders s i) b) s"
    using assms(2,3,4) by (rule process_order_row)
  have ord_upd: "orders s_upd i = update_trail_stop_price (orders s i) ref"
    and ev: "events s_upd = events s"
    using assms(8) by (simp_all add: store_order_def)
  have tsp: "trail_stop_price (orders s_upd i) =
     Some (case trail_stop_price (orders s i) of
             None \<Rightarrow> (if side (orders s i) = ''sell'' then ref - trail_offset tr ref
                       else ref + trail_offset tr ref)
           | Some t \<Rightarrow> (if side (orders s i) = ''sell'' then max t (ref - trail_offset tr ref)
                        else min t (ref + trail_offset tr ref)))"
    unfolding ord_upd using assms(5,6) by (rule update_trail_stop_price_value)
  show ?thesis
  proof (intro conjI impI allI)
    assume n: "trail_stop_price (orders s i) = None"
    show "process_order fd i s = Inr s_upd"
      unfolding po tp assms(8) using n by (simp add: after_price_def)
    show "events s_upd = events s" by (rule ev)
    show "status (orders s_upd i) = status (orders s i)" by (simp add: ord_upd)
    show "trail_stop_price (orders s_upd i) =
           Some (if side (orders s i) = ''sell'' then bar_high b - trail_offset tr (bar_high b)
                 else bar_low b + trail_offset tr (bar_low b))"
      unfolding tsp assms(7) using n by simp
  next
    fix t assume t: "trail_stop_price (orders s i) = Some t \<and> t \<noteq> 0"
    show "case stop_order t (side (orders s i)) (bar_open b) (bar_high b) (bar_low b) of
            None \<Rightarrow> process_order fd i s = Inr s_upd
          | Some p \<Rightarrow> process_order fd i s = Inr (fill_order i p (quantity (orders s i)) s_upd)"
      unfolding po tp assms(8) using t by (simp add: after_price_def split: option.splits)
    show "trail_stop_price (orders s_upd i) =
             Some (if side (orders s i) = ''sell''
                   then max t (bar_high b - trail_offset tr (bar_high b))
                   else min t (bar_low b + trail_offset tr (bar_low b)))"
      unfolding tsp assms(7) using t by simp
  qed
qed

lemma trailing_demo_order:
  "orders trailing_demo 0 = (demo_order ''trailing_stop'' None None)\<lparr>trail := Some (Absolute 3)\<rparr>"
  by (simp add: trailing_demo_def demo_state_def)

theorem trailing_stop_fill_then_update_witness:
  "order_type (orders trailing_demo 0) = ''trailing_stop''
   \<and> \<not> dependent_order_filled (orders trailing_demo 0)
   \<and> status (orders trailing_demo 0) \<noteq> CANCELED_ORDER
   \<and> fetch_ohlc demo_feed trailing_demo (orders trailing_demo 0) = Inr (Row demo_bar)
   \<and> trail (orders trailing_demo 0) = Some (Absolute 3)
   \<and> side (orders trailing_demo 0) = ''sell''
   \<and> trail_stop_price (orders trailing_demo 0) = None
   \<and> process_order demo_feed 0 trailing_demo
       = Inr (store_order 0 (update_trail_stop_price (orders trailing_demo 0) (bar_high demo_bar))
                trailing_demo)
   \<and> trail_stop_price (orders (store_order 0
         (update_trail_stop_price (orders trailing_demo 0) (bar_high demo_bar)) trailing_demo) 0)
       = Some 101"
proof -
  have h1: "order_type (orders trailing_demo 0) = ''trailing_stop''"
    and h2: "\<not> dependent_order_filled (orders trailing_demo 0)"
    and h3: "status (orders trailing_demo 0) \<noteq> CANCELED_ORDER"
    and h5: "trail (orders trailing_demo 0) = Some (Absolute 3)"
    and h6: "side (orders trailing_demo 0) = ''sell''"
    and h7: "trail_stop_price (orders trailing_demo 0) = None"
    by (simp_all add: trailing_demo_order demo_order_def Order_def CANCELED_ORDER_def)
  have h4: "fetch_ohlc demo_feed trailing_demo (orders trailing_demo 0) = Inr (Row demo_bar)"
    unfolding trailing_demo_def by (rule demo_fetch)
  have r: "bar_high demo_bar = (if side (orders trailing_demo 0) = ''sell''
              then bar_high demo_bar else bar_low demo_bar)"
    by (simp add: h6)
  have off: "bar_high demo_bar - trail_offset (Absolute 3) (bar_high demo_bar) = 101"
    by (simp add: demo_bar_def trail_offset_def)
  from trailing_stop_fill_then_update [OF h1 h2 h3 h4 h5 disjI1 [OF h6] r refl]
  have "process_order demo_feed 0 trailing_demo
       = Inr (store_order 0 (update_trail_stop_price (orders trailing_demo 0) (bar_high demo_bar))
                trailing_demo)
     \<and> trail_stop_price (orders (store_order 0
         (update_trail_stop_price (orders trailing_demo 0) (bar_high demo_bar)) trailing_demo) 0)
       = Some 101"
    using h7 h6 off by simp
  with h1 h2 h3 h4 h5 h6 h7 show ?thesis by simp
qed

text \<open>
  A trail stop price of exactly 0 counts as unset in the test \<^verbatim>\<open>if order._trail_stop_price\<close>:
  the stop rule is not applied, the trail is updated all the same.
\<close>

lemma trailing_stop_zero_is_unset:
  assumes "order_type (orders s i) = ''trailing_stop''"
    and "\<not> dependent_order_filled (orders s i)" and "status (orders s i) \<noteq> CANCELED_ORDER"
    and "fetch_ohlc fd s (orders s i) = Inr (Row b)"
    and "side (orders s i) = ''sell'' \<or> side (orders s i) = ''buy''"
    and "trail_stop_price (orders s i) = Some 0"
  shows "process_order fd i s =
           Inr (store_order i (update_trail_stop_price (orders s i)
                  (if side (orders s i) = ''sell'' then bar_high b else bar_low b)) s)"
  unfolding process_order_row [OF assms(2,3,4)] transaction_price_trailing [OF assms(1,5)]
  using assms(6) by (simp add: after_price_def)

subsection \<open>The fee loop\<close>

lemma trade_cost_loop_taker:
  assumes "order_type ord = ''market'' \<or> order_type ord = ''stop''"
  shows "trade_cost_loop fees ord price tc =
     tc + (\<Sum>f\<leftarrow>filter taker fees. flat_fee f + price * quantity ord * percent_fee f)"
proof (induction fees arbitrary: tc)
  case Nil
  show ?case by simp
next
  case (Cons f fees)
  have t: "(order_type ord \<in> set [''market'', ''stop'']) = True"
    and m: "(order_type ord \<in> set [''limit'', ''stop_limit'']) = False"
    using assms by auto
  show ?case
    by (simp only: trade_cost_loop.simps t m Cons.IH) simp
qed

lemma trade_cost_loop_maker:
  assumes "order_type ord = ''limit'' \<or> order_type ord = ''stop_limit''"
  shows "trade_cost_loop fees ord price tc =
     tc + (\<Sum>f\<leftarrow>filter maker fees. flat_fee f + price * quantity ord * percent_fee f)"
proof (induction fees arbitrary: tc)
  case Nil
  show ?case by simp
next
  case (Cons f fees)
  have t: "(order_type ord \<in> set [''market'', ''stop'']) = False"
    and m: "(order_type ord \<in> set [''limit'', ''stop_limit'']) = True"
    using assms by auto
  show ?case
    by (simp only: trade_cost_loop.simps t m Cons.IH) simp
qed

lemma trade_cost_loop_other:
  assumes "order_type ord \<notin> set [''market'', ''stop'']"
    and "order_type ord \<notin> set [''limit'', ''stop_limit'']"
  shows "trade_cost_loop fees ord price tc = tc"
proof (induction fees arbitrary: tc)
  case Nil
  show ?case by simp
next
  case (Cons f fees)
  have t: "(order_type ord \<in> set [''market'', ''stop'']) = False"
    and m: "(order_type ord \<in> set [''limit'', ''stop_limit'']) = False"
    using assms by simp_all
  show ?case
    by (simp only: trade_cost_loop.simps t m Cons.IH) simp
qed

lemma trade_cost_loop_cong:
  assumes "order_type ord' = order_type ord" and "quantity ord' = quantity ord"
  shows "trade_cost_loop fees ord' price tc = trade_cost_loop fees ord price tc"
proof (induction fees arbitrary: tc)
  case Nil
  show ?case by simp
next
  case (Cons f fees)
  show ?case by (simp only: trade_cost_loop.simps assms Cons.IH)
qed

lemma calculate_trade_cost_cong:
  assumes "order_type ord' = order_type ord" and "quantity ord' = quantity ord"
    and "side ord' = side ord"
    and "buy_trading_fees s' = buy_trading_fees s"
    and "sell_trading_fees s' = sell_trading_fees s"
  shows "calculate_trade_cost ord' s' price = calculate_trade_cost ord s price"
  unfolding calculate_trade_cost_def assms(3,4,5)
  by (simp only: trade_cost_loop_cong [OF assms(1,2)])

subsection \<open>Frames\<close>

lemma same_terms_refl [simp]: "same_terms ord ord"
  by (simp add: same_terms_def)

lemma same_terms_trans: "same_terms x y \<Longrightarrow> same_terms y z \<Longrightarrow> same_terms x z"
  by (simp add: same_terms_def)

lemma heap_grows_refl [simp]: "heap_grows s s"
  by (simp add: heap_grows_def)

lemma heap_grows_trans: "heap_grows s t \<Longrightarrow> heap_grows t u \<Longrightarrow> heap_grows s u"
  unfolding heap_grows_def
  by (meson same_terms_trans le_trans less_le_trans)

lemma same_broker_refl [simp]: "same_broker s s"
  by (simp add: same_broker_def)

lemma same_broker_trans: "same_broker s t \<Longrightarrow> same_broker t u \<Longrightarrow> same_broker s u"
  by (simp add: same_broker_def)

lemma same_terms_status [simp]: "same_terms ord (ord\<lparr>status := st\<rparr>)"
  and same_terms_flag [simp]: "same_terms ord (ord\<lparr>dependent_order_filled := f\<rparr>)"
  and same_terms_trade_cost [simp]: "same_terms ord (ord\<lparr>trade_cost := c\<rparr>)"
  and same_terms_triggered [simp]: "same_terms ord (ord\<lparr>price_triggered := t\<rparr>)"
  and same_terms_trail_stop [simp]: "same_terms ord (ord\<lparr>trail_stop_price := tsp\<rparr>)"
  by (simp_all add: same_terms_def)

lemma heap_grows_update:
  "same_terms (orders s i) ord \<Longrightarrow> heap_grows s (s\<lparr>orders := (orders s)(i := ord)\<rparr>)"
  by (simp add: heap_grows_def)

lemma heap_grows_set_status [simp]: "heap_grows s (set_status i st s)"
  by (simp add: set_status_def heap_grows_update)

lemma same_broker_set_status [simp]: "same_broker s (set_status i st s)"
  by (simp add: set_status_def same_broker_def)

lemma cash_set_status [simp]: "cash (set_status i st s) = cash s"
  by (simp add: set_status_def)

lemma next_id_set_status [simp]: "next_id (set_status i st s) = next_id s"
  by (simp add: set_status_def)

lemma heap_grows_process_trade_event [simp]: "heap_grows s (process_trade_event ev s)"
  by (simp add: process_trade_event_def split: event.splits option.splits)

lemma same_broker_process_trade_event [simp]: "same_broker s (process_trade_event ev s)"
  by (simp add: process_trade_event_def split: event.splits option.splits)

lemma cash_process_trade_event [simp]: "cash (process_trade_event ev s) = cash s"
  by (simp add: process_trade_event_def split: event.splits option.splits)

lemma next_id_process_trade_event [simp]: "next_id (process_trade_event ev s) = next_id s"
  by (simp add: process_trade_event_def split: event.splits option.splits)

lemma heap_grows_dispatch [simp]: "heap_grows s (dispatch ev s)"
proof -
  have "heap_grows s (s\<lparr>events := events s @ [ev]\<rparr>)" by (simp add: heap_grows_def)
  then show ?thesis
    unfolding dispatch_def by (rule heap_grows_trans) simp
qed

lemma same_broker_dispatch [simp]: "same_broker s (dispatch ev s)"
proof -
  have "same_broker s (s\<lparr>events := events s @ [ev]\<rparr>)" by (simp add: same_broker_def)
  then show ?thesis
    unfolding dispatch_def by (rule same_broker_trans) simp
qed

lemma cash_dispatch [simp]: "cash (dispatch ev s) = cash s"
  by (simp add: dispatch_def)

lemma next_id_dispatch [simp]: "next_id (dispatch ev s) = next_id s"
  by (simp add: dispatch_def)

lemma heap_grows_mark_and_cancel_dependent [simp]:
  "heap_grows s (mark_and_cancel_dependent i s)"
proof (cases "dependent_order (orders s i)")
  case None
  then show ?thesis by (simp add: mark_and_cancel_dependent_def)
next
  case (Some d)
  have "heap_grows s (s\<lparr>orders := (orders s)(d := (orders s d)\<lparr>dependent_order_filled := True\<rparr>)\<rparr>)"
    by (simp add: heap_grows_update)
  then show ?thesis
    unfolding mark_and_cancel_dependent_def cancel_order_def Some option.case
    by (rule heap_grows_trans) simp
qed

lemma same_broker_mark_and_cancel_dependent [simp]:
  "same_broker s (mark_and_cancel_dependent i s)"
proof (cases "dependent_order (orders s i)")
  case None
  then show ?thesis by (simp add: mark_and_cancel_dependent_def)
next
  case (Some d)
  have "same_broker s (s\<lparr>orders := (orders s)(d := (orders s d)\<lparr>dependent_order_filled := True\<rparr>)\<rparr>)"
    by (simp add: same_broker_def)
  then show ?thesis
    unfolding mark_and_cancel_dependent_def cancel_order_def Some option.case
    by (rule same_broker_trans) simp
qed

lemma cash_mark_and_cancel_dependent [simp]: "cash (mark_and_cancel_dependent i s) = cash s"
  by (simp add: mark_and_cancel_dependent_def cancel_order_def split: option.splits)

lemma next_id_mark_and_cancel_dependent [simp]:
  "next_id (mark_and_cancel_dependent i s) = next_id s"
  by (simp add: mark_and_cancel_dependent_def cancel_order_def split: option.splits)

lemma heap_grows_alloc:
  "heap_grows s t \<Longrightarrow> heap_grows s (snd (alloc ord t))"
  by (simp add: heap_grows_def alloc_def)

lemma heap_grows_set_dependent_order:
  "heap_grows s t \<Longrightarrow> next_id s \<le> n \<Longrightarrow> heap_grows s (set_dependent_order n m t)"
  by (simp add: heap_grows_def set_dependent_order_def)

lemma alloc_fst [simp]: "fst (alloc ord t) = next_id t"
  and alloc_next_id [simp]: "next_id (snd (alloc ord t)) = Suc (next_id t)"
  and alloc_cash [simp]: "cash (snd (alloc ord t)) = cash t"
  and alloc_same_broker [simp]: "same_broker t (snd (alloc ord t))"
  by (simp_all add: alloc_def same_broker_def)

lemma set_dependent_order_next_id [simp]: "next_id (set_dependent_order n m t) = next_id t"
  and set_dependent_order_cash [simp]: "cash (set_dependent_order n m t) = cash t"
  and set_dependent_order_same_broker [simp]: "same_broker t (set_dependent_order n m t)"
  by (simp_all add: set_dependent_order_def same_broker_def)

lemma flatten_order_frame:
  "heap_grows s (snd (flatten_order i s)) \<and> same_broker s (snd (flatten_order i s))
   \<and> cash (snd (flatten_order i s)) = cash s"
  by (simp add: flatten_order_def heap_grows_def same_broker_def alloc_def
        set_dependent_order_def Let_def split: prod.splits list.splits)

subsection \<open>Cost of a fill\<close>

lemma append_flattened_frame:
  "heap_grows s (append_flattened i s) \<and> same_broker s (append_flattened i s)
   \<and> cash (append_flattened i s) = cash s"
proof (cases "order_class (orders s i) \<in> set [''bracket'', ''oto'']")
  case False
  then show ?thesis by (simp add: append_flattened_def)
next
  case True
  obtain ids t where f: "flatten_order i s = (ids, t)" by (cases "flatten_order i s")
  from flatten_order_frame [of s i] f
  have t: "heap_grows s t" "same_broker s t" "cash t = cash s" by simp_all
  have eq: "append_flattened i s = t\<lparr>new_orders := new_orders t @ ids\<rparr>"
    using True f by (simp add: append_flattened_def)
  show ?thesis
    unfolding eq using t by (simp add: heap_grows_def same_broker_def)
qed

lemma cash_fill_order:
  assumes "i < next_id s"
  shows "cash (fill_order i p q s) = cash s - calculate_trade_cost (orders s i) s p"
proof -
  define s1 where "s1 = mark_and_cancel_dependent i s"
  define s2 where "s2 = append_flattened i s1"
  have g1: "heap_grows s s1" and b1: "same_broker s s1" and c1: "cash s1 = cash s"
    by (simp_all add: s1_def)
  have g2: "heap_grows s1 s2" and b2: "same_broker s1 s2" and c2: "cash s2 = cash s1"
    using append_flattened_frame [of s1 i] by (simp_all add: s2_def)
  have g: "heap_grows s s2" using g1 g2 by (rule heap_grows_trans)
  have b: "same_broker s s2" using b1 b2 by (rule same_broker_trans)
  have st: "same_terms (orders s i) (orders s2 i)"
    using g assms by (simp add: heap_grows_def)
  have tc: "calculate_trade_cost (orders s2 i) s2 p = calculate_trade_cost (orders s i) s p"
    using st b by (intro calculate_trade_cost_cong) (simp_all add: same_terms_def same_broker_def)
  have "cash (fill_order i p q s) = cash s2 - calculate_trade_cost (orders s2 i) s2 p"
    by (simp add: fill_order_def charge_trade_cost_def set_cash_position_def Let_def
          s1_def s2_def)
  then show ?thesis by (simp add: tc c1 c2)
qed

text \<open>
  C6. The trade cost of a fill at price p is the sum, over the fee list of the side of the
  order (the buy fees for a buy, the sell fees for a sell), of flat_fee + p * quantity *
  percent_fee, taken over the taker fees when the order is a market or a stop order and over
  the maker fees when it is a limit or a stop_limit order. The fill branch of the loop takes
  exactly this amount from the cash of the strategy.
\<close>

theorem trade_cost_charged:
  assumes "i < next_id s"
    and "side (orders s i) = ''buy'' \<or> side (orders s i) = ''sell''"
    and "fees = (if side (orders s i) = ''buy'' then buy_trading_fees s else sell_trading_fees s)"
  shows
   "(order_type (orders s i) = ''market'' \<or> order_type (orders s i) = ''stop'' \<longrightarrow>
       calculate_trade_cost (orders s i) s p =
         (\<Sum>f\<leftarrow>filter taker fees. flat_fee f + p * quantity (orders s i) * percent_fee f))
    \<and> (order_type (orders s i) = ''limit'' \<or> order_type (orders s i) = ''stop_limit'' \<longrightarrow>
       calculate_trade_cost (orders s i) s p =
         (\<Sum>f\<leftarrow>filter maker fees. flat_fee f + p * quantity (orders s i) * percent_fee f))
    \<and> cash (fill_order i p q s) = cash s - calculate_trade_cost (orders s i) s p"
proof -
  have fl: "calculate_trade_cost (orders s i) s p = trade_cost_loop fees (orders s i) p 0"
  proof (cases "side (orders s i) = ''buy''")
    case True
    then show ?thesis unfolding assms(3) calculate_trade_cost_def by (simp add: Let_def)
  next
    case False
    with assms(2) have "side (orders s i) = ''sell''" by blast
    then show ?thesis unfolding assms(3) calculate_trade_cost_def by (simp add: Let_def)
  qed
  show ?thesis
    unfolding fl
    using cash_fill_order [OF assms(1), of p q] fl
    by (simp add: trade_cost_loop_taker trade_cost_loop_maker)
qed

theorem trade_cost_charged_witness:
  "0 < next_id limit_demo
   \<and> side (orders limit_demo 0) = ''sell''
   \<and> order_type (orders limit_demo 0) = ''limit''
   \<and> calculate_trade_cost (orders limit_demo 0) limit_demo 102 = 56 / 5
   \<and> cash (fill_order 0 102 10 limit_demo) = 5000 - 56 / 5"
proof -
  have h1: "0 < next_id limit_demo"
    and h2: "side (orders limit_demo 0) = ''sell''"
    and h3: "order_type (orders limit_demo 0) = ''limit''"
    and fees: "sell_trading_fees limit_demo = [demo_fee]"
    and q: "quantity (orders limit_demo 0) = 10"
    and c: "cash limit_demo = 5000"
    by (simp_all add: limit_demo_def demo_state_def demo_order_def Order_def)
  have nb: "side (orders limit_demo 0) \<noteq> ''buy''" by (simp add: h2)
  from trade_cost_charged [OF h1 disjI2 [OF h2] refl, of 102 10]
  have "calculate_trade_cost (orders limit_demo 0) limit_demo 102 = 56 / 5
        \<and> cash (fill_order 0 102 10 limit_demo) = 5000 - 56 / 5"
    by (simp add: h3 nb fees q c demo_fee_def)
  with h1 h2 h3 show ?thesis by simp
qed

text \<open>
  C10. For a trailing_stop order the trade cost is 0 whatever the fee lists of the strategy
  hold, because the type is in neither the taker nor the maker set; its fill takes nothing
  from the cash.
\<close>

theorem trailing_stop_no_fee:
  assumes "order_type (orders s i) = ''trailing_stop''" and "i < next_id s"
  shows "calculate_trade_cost (orders s i) s p = 0 \<and> cash (fill_order i p q s) = cash s"
proof -
  have "order_type (orders s i) \<notin> set [''market'', ''stop'']"
    and "order_type (orders s i) \<notin> set [''limit'', ''stop_limit'']"
    using assms(1) by simp_all
  then have z: "calculate_trade_cost (orders s i) s p = 0"
    unfolding calculate_trade_cost_def Let_def by (rule trade_cost_loop_other)
  show ?thesis using z cash_fill_order [OF assms(2), of p q] by simp
qed

theorem trailing_stop_no_fee_witness:
  "order_type (orders trailing_demo 0) = ''trailing_stop''
   \<and> 0 < next_id trailing_demo
   \<and> sell_trading_fees trailing_demo = [demo_fee]
   \<and> calculate_trade_cost (orders trailing_demo 0) trailing_demo 101 = 0
   \<and> cash (fill_order 0 101 10 trailing_demo) = 5000"
proof -
  have h1: "order_type (orders trailing_demo 0) = ''trailing_stop''"
    by (simp add: trailing_demo_order demo_order_def)
  have h2: "0 < next_id trailing_demo"
    and fees: "sell_trading_fees trailing_demo = [demo_fee]"
    and c: "cash trailing_demo = 5000"
    by (simp_all add: trailing_demo_def demo_state_def)
  from trailing_stop_no_fee [OF h1 h2, of 101 10] h1 h2 fees c
  show ?thesis by simp
qed

subsection \<open>Cash settlement\<close>

lemma new_events_append [simp]: "events s' = events s @ evs \<Longrightarrow> new_events s s' = evs"
  by (simp add: new_events_def)

text \<open>
  C7. An option position with a quantity other than 0 (and a multiplier other than 0) is cash
  settled at the price U of the underlying. The profit or loss per contract is U - strike
  for a CALL and strike - U otherwise (a PUT), times quantity and multiplier; a long position
  does not settle below 0 and a short one not above 0. The clipped amount is added to the
  cash, and one CASH_SETTLED event is dispatched, with price |pnl / quantity / multiplier|,
  filled quantity |quantity| and a new order on the same asset for |quantity| contracts,
  a sell for a long position and a buy for a short one.
\<close>

theorem cash_settlement:
  assumes "asset_type (position_asset pos) = ''option''"
    and "position_quantity pos \<noteq> 0" and "multiplier (position_asset pos) \<noteq> 0"
    and "U = get_last_price fd (symbol (position_asset pos)) ''stock''"
    and "per_contract = (if right (position_asset pos) = ''CALL''
                         then U - strike (position_asset pos)
                         else strike (position_asset pos) - U)"
    and "raw = per_contract * position_quantity pos * multiplier (position_asset pos)"
    and "pnl = (if position_quantity pos > 0 then max 0 raw else min 0 raw)"
    and "s' = final_state (cash_settle_options_contract fd pos s)"
  shows "(\<exists>ord. cash_settle_options_contract fd pos s = Inr s'
            \<and> cash s' = cash s + pnl
            \<and> new_events s s' =
                 [Cash_settled ord
                    \<bar>pnl / position_quantity pos / multiplier (position_asset pos)\<bar>
                    \<bar>position_quantity pos\<bar>]
            \<and> asset ord = position_asset pos
            \<and> quantity ord = \<bar>position_quantity pos\<bar>
            \<and> side ord = (if position_quantity pos > 0 then ''sell'' else ''buy''))
         \<and> (position_quantity pos > 0 \<longrightarrow> pnl \<ge> 0)
         \<and> (position_quantity pos < 0 \<longrightarrow> pnl \<le> 0)"
proof -
  define clipped where
    "clipped = (if position_quantity pos > 0 \<and> raw < 0 then 0
                else if position_quantity pos < 0 \<and> raw > 0 then 0 else raw)"
  have cl: "clipped = pnl"
    using assms(2) unfolding clipped_def assms(7) by (simp add: max_def min_def)
  define s1 where "s1 = set_cash_position (cash s + clipped) s"
  define ord where
    "ord = create_order s1 (position_asset pos) \<bar>position_quantity pos\<bar>
             (if position_quantity pos > 0 then ''sell'' else ''buy'')"
  have run: "cash_settle_options_contract fd pos s =
      Inr (dispatch (Cash_settled ord
             \<bar>clipped / position_quantity pos / multiplier (position_asset pos)\<bar>
             \<bar>position_quantity pos\<bar>) s1)"
    using assms(1,2,3)
    unfolding cash_settle_options_contract_def IS_BACKTESTING_BROKER_def Let_def
      clipped_def s1_def ord_def assms(4,5,6)
    by simp
  have s': "s' = dispatch (Cash_settled ord
             \<bar>clipped / position_quantity pos / multiplier (position_asset pos)\<bar>
             \<bar>position_quantity pos\<bar>) s1"
    unfolding assms(8) run by (simp add: final_state_def)
  have ev1: "events s1 = events s" and c1: "cash s1 = cash s + clipped"
    by (simp_all add: s1_def set_cash_position_def)
  have "cash_settle_options_contract fd pos s = Inr s'" by (simp add: run s')
  moreover have "cash s' = cash s + pnl" by (simp add: s' c1 cl)
  moreover have "new_events s s' =
                 [Cash_settled ord
                    \<bar>pnl / position_quantity pos / multiplier (position_asset pos)\<bar>
                    \<bar>position_quantity pos\<bar>]"
    by (rule new_events_append) (simp add: s' ev1 cl)
  moreover have "asset ord = position_asset pos"
    and "quantity ord = \<bar>position_quantity pos\<bar>"
    and "side ord = (if position_quantity pos > 0 then ''sell'' else ''buy'')"
    by (simp_all add: ord_def create_order_def Order_def)
  moreover have "position_quantity pos > 0 \<longrightarrow> pnl \<ge> 0"
    and "position_quantity pos < 0 \<longrightarrow> pnl \<le> 0"
    by (simp_all add: assms(7))
  ultimately show ?thesis by blast
qed

theorem cash_settlement_witness:
  "asset_type (position_asset demo_position) = ''option''
   \<and> position_quantity demo_position \<noteq> 0
   \<and> multiplier (position_asset demo_position) \<noteq> 0
   \<and> get_last_price demo_feed (symbol (position_asset demo_position)) ''stock'' = 107
   \<and> cash (final_state (cash_settle_options_contract demo_feed demo_position limit_demo))
        = cash limit_demo + 700
   \<and> (\<exists>ord. new_events limit_demo
                (final_state (cash_settle_options_contract demo_feed demo_position limit_demo))
              = [Cash_settled ord 7 1]
            \<and> side ord = ''sell'')"
proof -
  have h1: "asset_type (position_asset demo_position) = ''option''"
    and h2: "position_quantity demo_position \<noteq> 0"
    and h3: "multiplier (position_asset demo_position) \<noteq> 0"
    and h4: "107 = get_last_price demo_feed (symbol (position_asset demo_position)) ''stock''"
    and h5: "7 = (if right (position_asset demo_position) = ''CALL''
                  then 107 - strike (position_asset demo_position)
                  else strike (position_asset demo_position) - 107)"
    and h6: "700 = 7 * position_quantity demo_position * multiplier (position_asset demo_position)"
    and h7: "700 = (if position_quantity demo_position > 0 then max 0 (700::real) else min 0 700)"
    by (simp_all add: demo_position_def demo_option_def demo_feed_def)
  have q: "position_quantity demo_position = 1" "multiplier (position_asset demo_position) = 100"
    by (simp_all add: demo_position_def demo_option_def)
  from cash_settlement [OF h1 h2 h3 h4 h5 h6 h7 refl, of limit_demo]
  have "cash (final_state (cash_settle_options_contract demo_feed demo_position limit_demo))
        = cash limit_demo + 700
   \<and> (\<exists>ord. new_events limit_demo
                (final_state (cash_settle_options_contract demo_feed demo_position limit_demo))
              = [Cash_settled ord 7 1]
            \<and> side ord = ''sell'')"
    by (auto simp add: q)
  with h1 h2 h3 h4 show ?thesis by simp
qed

lemma cash_settlement_zero_quantity:
  assumes "asset_type (position_asset pos) = ''option''" and "position_quantity pos = 0"
  shows "cash_settle_options_contract fd pos s = Inl (ZeroDivisionError, s)"
  using assms
  by (simp add: cash_settle_options_contract_def IS_BACKTESTING_BROKER_def Let_def
        set_cash_position_def)

subsection \<open>A data source without a bar\<close>

lemma fetch_ohlc_never_cancels: "fetch_ohlc fd s ord \<noteq> Inr Cancel"
  by (simp add: fetch_ohlc_def Let_def split: option.splits list.splits)

lemma fetch_ohlc_no_frame:
  assumes "upper (SOURCE s) \<in> set [''CCXT'', ''YAHOO''] \<or> SOURCE s = ''PANDAS''"
    and "\<forall>n. get_historical_prices fd (asset ord) (quote ord) n = None"
  shows "fetch_ohlc fd s ord = Inl AttributeError"
  using assms by (auto simp add: fetch_ohlc_def Let_def)

lemma process_order_no_frame:
  assumes "upper (SOURCE s) \<in> set [''CCXT'', ''YAHOO''] \<or> SOURCE s = ''PANDAS''"
    and "\<forall>n. get_historical_prices fd (asset (orders s i)) (quote (orders s i)) n = None"
    and "\<not> dependent_order_filled (orders s i)" and "status (orders s i) \<noteq> CANCELED_ORDER"
  shows "process_order fd i s = Inl (AttributeError, s)"
  using fetch_ohlc_no_frame [OF assms(1,2)] assms(3,4)
  by (simp add: process_order_def Let_def)

lemma process_pending_orders_some:
  assumes "process_expired_option_contracts fd s = Inr s"
    and "filter (\<lambda>i. status (orders s i) \<in> set [''unprocessed'', ''new'']) (tracked_orders s)
           = i # rest"
  shows "process_pending_orders fd s = process_orders fd (i # rest) s"
  using assms by (simp add: process_pending_orders_def)

text \<open>
  C9. The claim is that a pending order for which the data source has no bar is canceled on
  that tick. The code does not do that: with the PANDAS source the frame is read
  (\<^verbatim>\<open>ohlc.df\<close>) before the test \<^verbatim>\<open>if ohlc is None\<close>, and the CCXT/YAHOO branch has no test
  at all, so the pass ends in an AttributeError at the first such order, nothing is
  dispatched and nothing is canceled.
\<close>

theorem no_bar_raises_instead_of_cancel:
  "process_pending_orders silent_feed limit_demo = Inl (AttributeError, limit_demo)
   \<and> process_pending_orders silent_feed yahoo_demo = Inl (AttributeError, yahoo_demo)
   \<and> events limit_demo = [] \<and> events yahoo_demo = []
   \<and> status (orders limit_demo 0) = ''new'' \<and> status (orders yahoo_demo 0) = ''new''"
proof -
  have p: "process_order silent_feed 0 limit_demo = Inl (AttributeError, limit_demo)"
    by (rule process_order_no_frame)
       (simp_all add: limit_demo_def demo_state_def silent_feed_def demo_order_def Order_def
          CANCELED_ORDER_def)
  have y: "process_order silent_feed 0 yahoo_demo = Inl (AttributeError, yahoo_demo)"
    by (rule process_order_no_frame)
       (simp_all add: yahoo_demo_def demo_state_def silent_feed_def demo_order_def Order_def
          CANCELED_ORDER_def upper_def)
  have pend: "filter (\<lambda>i. status (orders limit_demo i) \<in> set [''unprocessed'', ''new''])
                (tracked_orders limit_demo) = [0, 1]"
    "filter (\<lambda>i. status (orders yahoo_demo i) \<in> set [''unprocessed'', ''new''])
                (tracked_orders yahoo_demo) = [0, 1]"
    by (simp_all add: limit_demo_def yahoo_demo_def demo_state_def demo_order_def Order_def)
  have ex: "process_expired_option_contracts silent_feed limit_demo = Inr limit_demo"
    "process_expired_option_contracts silent_feed yahoo_demo = Inr yahoo_demo"
    by (simp_all add: process_expired_option_contracts_def limit_demo_def yahoo_demo_def
          demo_state_def)
  have "process_pending_orders silent_feed limit_demo
          = process_orders silent_feed [0, 1] limit_demo"
    using ex(1) pend(1) by (rule process_pending_orders_some)
  then have "process_pending_orders silent_feed limit_demo = Inl (AttributeError, limit_demo)"
    by (simp add: p)
  moreover have "process_pending_orders silent_feed yahoo_demo
          = process_orders silent_feed [0, 1] yahoo_demo"
    using ex(2) pend(2) by (rule process_pending_orders_some)
  then have "process_pending_orders silent_feed yahoo_demo = Inl (AttributeError, yahoo_demo)"
    by (simp add: y)
  moreover have "events limit_demo = []" "events yahoo_demo = []"
    "status (orders limit_demo 0) = ''new''" "status (orders yahoo_demo 0) = ''new''"
    by (simp_all add: limit_demo_def yahoo_demo_def demo_state_def demo_order_def Order_def)
  ultimately show ?thesis by simp
qed

subsection \<open>Frames of a turn of the loop and of a pass\<close>

lemma same_terms_update_trail_stop_price [simp]:
  "same_terms ord (update_trail_stop_price ord p)"
  by (simp add: update_trail_stop_price_def split: option.splits)

lemma transaction_price_same_terms:
  "transaction_price ord b = Inr (price, ord') \<Longrightarrow> same_terms ord ord'"
  by (auto simp add: transaction_price_def Let_def split: if_splits sum.splits option.splits)

lemma transaction_price_unbound_same:
  "transaction_price_unbound ord = Inr (price, ord') \<Longrightarrow> ord' = ord"
  by (auto simp add: transaction_price_unbound_def split: if_splits)

lemma heap_grows_store_order:
  "same_terms (orders s i) ord \<Longrightarrow> heap_grows s (store_order i ord s)"
  by (simp add: store_order_def heap_grows_update)

lemma same_broker_store_order [simp]: "same_broker s (store_order i ord s)"
  by (simp add: store_order_def same_broker_def)

lemma heap_grows_charge_trade_cost [simp]: "heap_grows s (charge_trade_cost i p s)"
  by (simp add: charge_trade_cost_def set_cash_position_def Let_def heap_grows_def)

lemma same_broker_charge_trade_cost [simp]: "same_broker s (charge_trade_cost i p s)"
  by (simp add: charge_trade_cost_def set_cash_position_def Let_def same_broker_def)

lemma heap_grows_fill_order [simp]: "heap_grows s (fill_order i p q s)"
  unfolding fill_order_def
  by (meson heap_grows_trans heap_grows_dispatch heap_grows_charge_trade_cost
        append_flattened_frame heap_grows_mark_and_cancel_dependent)

lemma same_broker_fill_order [simp]: "same_broker s (fill_order i p q s)"
  unfolding fill_order_def
  by (meson same_broker_trans same_broker_dispatch same_broker_charge_trade_cost
        append_flattened_frame same_broker_mark_and_cancel_dependent)

lemma final_state_simps [simp]:
  "final_state (Inl (e, s)) = s" "final_state (Inr s) = s"
  by (simp_all add: final_state_def)

lemma after_price_frame:
  assumes "r = Inl e \<or> (\<exists>price ord'. r = Inr (price, ord') \<and> same_terms (orders s i) ord')"
  shows "heap_grows s (final_state (after_price i q r s))
         \<and> same_broker s (final_state (after_price i q r s))"
proof (cases r)
  case (Inl e')
  then show ?thesis by (simp add: after_price_def)
next
  case (Inr pr)
  obtain price ord' where pr: "pr = (price, ord')" by (cases pr)
  with Inr assms have st: "same_terms (orders s i) ord'" by auto
  have g: "heap_grows s (store_order i ord' s)" using st by (rule heap_grows_store_order)
  have b: "same_broker s (store_order i ord' s)" by simp
  show ?thesis
  proof (cases price)
    case None
    then show ?thesis using g b Inr pr by (simp add: after_price_def)
  next
    case (Some p)
    have "heap_grows s (fill_order i p q (store_order i ord' s))"
      using g heap_grows_fill_order by (rule heap_grows_trans)
    moreover have "same_broker s (fill_order i p q (store_order i ord' s))"
      using b same_broker_fill_order by (rule same_broker_trans)
    ultimately show ?thesis using Some Inr pr by (simp add: after_price_def)
  qed
qed

lemma process_order_frame:
  "heap_grows s (final_state (process_order fd i s))
   \<and> same_broker s (final_state (process_order fd i s))"
proof (cases "dependent_order_filled (orders s i) \<or> status (orders s i) = CANCELED_ORDER")
  case True
  then show ?thesis by (simp add: process_order_def)
next
  case False
  show ?thesis
  proof (cases "fetch_ohlc fd s (orders s i)")
    case (Inl e)
    then show ?thesis using False by (simp add: process_order_def)
  next
    case (Inr f)
    show ?thesis
    proof (cases f)
      case Unbound
      have "transaction_price_unbound (orders s i) = Inl ValueError
            \<or> transaction_price_unbound (orders s i) = Inl UnboundLocalError
            \<or> transaction_price_unbound (orders s i) = Inr (None, orders s i)"
        by (simp add: transaction_price_unbound_def)
      then have "(\<exists>e. transaction_price_unbound (orders s i) = Inl e)
         \<or> (\<exists>price ord'. transaction_price_unbound (orders s i) = Inr (price, ord')
               \<and> same_terms (orders s i) ord')"
        by (metis same_terms_refl)
      then obtain r where r: "r = transaction_price_unbound (orders s i)"
        and c: "(\<exists>e. r = Inl e) \<or> (\<exists>price ord'. r = Inr (price, ord')
               \<and> same_terms (orders s i) ord')" by simp
      from c have "heap_grows s (final_state (after_price i (quantity (orders s i)) r s))
         \<and> same_broker s (final_state (after_price i (quantity (orders s i)) r s))"
        by (metis after_price_frame)
      then show ?thesis using False Inr Unbound r by (simp add: process_order_def Let_def)
    next
      case Cancel
      then show ?thesis using Inr fetch_ohlc_never_cancels by simp
    next
      case (Row b)
      define r where "r = transaction_price (orders s i) b"
      have c: "(\<exists>e. r = Inl e) \<or> (\<exists>price ord'. r = Inr (price, ord')
               \<and> same_terms (orders s i) ord')"
      proof (cases r)
        case (Inl e)
        then show ?thesis by simp
      next
        case (Inr pr)
        then show ?thesis
          using transaction_price_same_terms [of "orders s i" b "fst pr" "snd pr"]
          by (cases pr) (simp add: r_def)
      qed
      from c have "heap_grows s (final_state (after_price i (quantity (orders s i)) r s))
         \<and> same_broker s (final_state (after_price i (quantity (orders s i)) r s))"
        by (metis after_price_frame)
      then show ?thesis using False Inr Row r_def by (simp add: process_order_def Let_def)
    qed
  qed
qed

lemma process_orders_frame:
  "heap_grows s (final_state (process_orders fd pending s))
   \<and> same_broker s (final_state (process_orders fd pending s))"
proof (induction pending arbitrary: s)
  case Nil
  show ?case by simp
next
  case (Cons i pending)
  show ?case
  proof (cases "process_order fd i s")
    case (Inl e)
    with process_order_frame [of s fd i] show ?thesis by simp
  next
    case (Inr s1)
    with process_order_frame [of s fd i]
    have "heap_grows s s1" "same_broker s s1" by simp_all
    with Cons.IH [of s1] Inr show ?thesis
      by (auto intro: heap_grows_trans same_broker_trans)
  qed
qed

lemma orders_dispatch_cash_settled [simp]:
  "orders (dispatch (Cash_settled ord p q) s) = orders s"
  by (simp add: dispatch_def process_trade_event_def)

lemma cash_settle_options_contract_frame:
  "orders (final_state (cash_settle_options_contract fd pos s)) = orders s
   \<and> next_id (final_state (cash_settle_options_contract fd pos s)) = next_id s
   \<and> same_broker s (final_state (cash_settle_options_contract fd pos s))
   \<and> (\<exists>evs. events (final_state (cash_settle_options_contract fd pos s)) = events s @ evs)"
proof -
  have b: "same_broker s (set_cash_position c s)" for c
    by (simp add: set_cash_position_def same_broker_def)
  have "same_broker s (dispatch ev (set_cash_position c s))" for ev c
    using b same_broker_dispatch by (rule same_broker_trans)
  then show ?thesis
    using b
    by (simp add: cash_settle_options_contract_def Let_def set_cash_position_def)
qed

lemma expire_positions_frame:
  "orders (final_state (expire_positions fd ps s)) = orders s
   \<and> next_id (final_state (expire_positions fd ps s)) = next_id s
   \<and> same_broker s (final_state (expire_positions fd ps s))
   \<and> (\<exists>evs. events (final_state (expire_positions fd ps s)) = events s @ evs)"
proof (induction ps arbitrary: s)
  case Nil
  show ?case by simp
next
  case (Cons pos rest)
  let ?skip = "expire_positions fd (pos # rest) s = expire_positions fd rest s"
  let ?settle = "expire_positions fd (pos # rest) s =
      (case cash_settle_options_contract fd pos s of
         Inl e \<Rightarrow> Inl e | Inr s' \<Rightarrow> expire_positions fd rest s')"
  have "?skip \<or> ?settle"
    by (simp add: Let_def split: option.splits)
  then show ?case
  proof
    assume ?skip
    then show ?thesis using Cons.IH [of s] by simp
  next
    assume st: ?settle
    show ?thesis
    proof (cases "cash_settle_options_contract fd pos s")
      case (Inl e)
      with cash_settle_options_contract_frame [of fd pos s] st show ?thesis
        by (cases e) simp
    next
      case (Inr s1)
      with cash_settle_options_contract_frame [of fd pos s]
      have 1: "orders s1 = orders s" "next_id s1 = next_id s" "same_broker s s1"
        and "\<exists>evs. events s1 = events s @ evs"
        by simp_all
      then obtain evs1 where e1: "events s1 = events s @ evs1" by blast
      from Cons.IH [of s1] obtain evs2 where
        2: "orders (final_state (expire_positions fd rest s1)) = orders s1"
           "next_id (final_state (expire_positions fd rest s1)) = next_id s1"
           "same_broker s1 (final_state (expire_positions fd rest s1))"
           "events (final_state (expire_positions fd rest s1)) = events s1 @ evs2"
        by blast
      have eq: "expire_positions fd (pos # rest) s = expire_positions fd rest s1"
        using st Inr by simp
      show ?thesis
        unfolding eq using 1 2 e1 same_broker_trans [OF 1(3) 2(3)] by simp
    qed
  qed
qed

lemma process_expired_option_contracts_frame:
  "orders (final_state (process_expired_option_contracts fd s)) = orders s
   \<and> next_id (final_state (process_expired_option_contracts fd s)) = next_id s
   \<and> same_broker s (final_state (process_expired_option_contracts fd s))
   \<and> (\<exists>evs. events (final_state (process_expired_option_contracts fd s)) = events s @ evs)"
  using expire_positions_frame [of fd "positions s" s]
  by (simp add: process_expired_option_contracts_def)

lemma process_pending_orders_cases:
  "(\<exists>e. process_expired_option_contracts fd s = Inl e \<and> process_pending_orders fd s = Inl e)
   \<or> (\<exists>s1 pending. process_expired_option_contracts fd s = Inr s1
         \<and> process_pending_orders fd s = process_orders fd pending s1)"
proof (cases "process_expired_option_contracts fd s")
  case (Inl e)
  then show ?thesis by (simp add: process_pending_orders_def)
next
  case (Inr s1)
  have "process_pending_orders fd s =
      process_orders fd (filter (\<lambda>i. status (orders s1 i) \<in> set [''unprocessed'', ''new''])
                   (tracked_orders s1)) s1"
    using Inr by (simp add: process_pending_orders_def Let_def)
  with Inr show ?thesis by blast
qed

lemma process_pending_orders_frame:
  "heap_grows s (final_state (process_pending_orders fd s))
   \<and> same_broker s (final_state (process_pending_orders fd s))"
proof -
  have g0: "heap_grows s s1" if "orders s1 = orders s" "next_id s1 = next_id s" for s1
    using that by (simp add: heap_grows_def)
  from process_pending_orders_cases [of fd s] show ?thesis
  proof (elim disjE exE conjE)
    fix e assume e: "process_expired_option_contracts fd s = Inl e"
      and p: "process_pending_orders fd s = Inl e"
    from process_expired_option_contracts_frame [of fd s] e p g0 show ?thesis
      by (cases e) simp
  next
    fix s1 pending assume e: "process_expired_option_contracts fd s = Inr s1"
      and p: "process_pending_orders fd s = process_orders fd pending s1"
    from process_expired_option_contracts_frame [of fd s] e g0
    have "heap_grows s s1" "same_broker s s1" by simp_all
    with process_orders_frame [of s1 fd pending] show ?thesis
      unfolding p by (auto intro: heap_grows_trans same_broker_trans)
  qed
qed

subsection \<open>The clock\<close>

lemma get_time_to_open_nonneg: "0 \<le> get_time_to_open s"
  by (simp add: get_time_to_open_def Let_def split: list.splits prod.splits)

lemma get_time_to_close_nonneg: "get_time_to_close s = Some r \<Longrightarrow> 0 \<le> r"
proof -
  assume a: "get_time_to_close s = Some r"
  let ?l = "filter (\<lambda>(market_open, market_close). datetime s \<le> market_close) (trading_days s)"
  show ?thesis
  proof (cases ?l)
    case Nil
    with a show ?thesis by (simp add: get_time_to_close_def Let_def)
  next
    case (Cons x xs)
    obtain o' c where x: "x = (o', c)" by (cases x)
    have "x \<in> set ?l" using Cons by simp
    then have "datetime s \<le> c" using x by simp
    with a Cons x show ?thesis
      by (simp add: get_time_to_close_def Let_def split: if_splits)
  qed
qed

lemma get_time_same_broker:
  assumes "same_broker s s'"
  shows "get_time_to_open s' = get_time_to_open s" "get_time_to_close s' = get_time_to_close s"
proof -
  have e: "datetime s' = datetime s" "trading_days s' = trading_days s"
    "datetime_start s' = datetime_start s"
    using assms by (simp_all add: same_broker_def)
  show "get_time_to_open s' = get_time_to_open s"
    unfolding get_time_to_open_def by (simp only: e)
  show "get_time_to_close s' = get_time_to_close s"
    unfolding get_time_to_close_def by (simp only: e)
qed

lemma datetime_update_datetime [simp]:
  "datetime (update_datetime u s) = new_datetime (datetime s) u"
  by (simp add: update_datetime_def data_source_update_datetime_def)

lemma datetime_await_market_to_open:
  "datetime (final_state (await_market_to_open fd timedelta s)) = datetime s
   \<or> datetime (final_state (await_market_to_open fd timedelta s)) =
       datetime s + (case timedelta of
                       None \<Rightarrow> get_time_to_open s
                     | Some m \<Rightarrow> if m \<noteq> 0 then get_time_to_open s - 60 * m
                                 else get_time_to_open s)"
proof (cases "SOURCE s = ''PANDAS'' \<and> timestep s = ''day''")
  case True
  then show ?thesis by (simp add: await_market_to_open_def)
next
  case False
  have fr: "same_broker s (final_state (process_pending_orders fd s))"
    using process_pending_orders_frame [of s fd] by simp
  show ?thesis
  proof (cases "process_pending_orders fd s")
    case (Inl e)
    with fr have "datetime (final_state (await_market_to_open fd timedelta s)) = datetime s"
      using False by (cases e) (simp add: await_market_to_open_def same_broker_def)
    then show ?thesis by simp
  next
    case (Inr s1)
    with fr have b: "same_broker s s1" by simp
    have d: "datetime s1 = datetime s" using b by (simp add: same_broker_def)
    show ?thesis
      using False Inr d get_time_same_broker(1) [OF b]
      by (simp add: await_market_to_open_def Let_def new_datetime_def split: option.splits)
  qed
qed

lemma datetime_await_market_to_close:
  "datetime (final_state (await_market_to_close fd timedelta s)) = datetime s
   \<or> datetime (final_state (await_market_to_close fd timedelta s)) =
       datetime s + (case timedelta of
                       None \<Rightarrow> (case get_time_to_close s of None \<Rightarrow> 0 | Some r \<Rightarrow> r)
                     | Some m \<Rightarrow> (case get_time_to_close s of None \<Rightarrow> 0 | Some r \<Rightarrow> r) - 60 * m)"
proof (cases "SOURCE s = ''PANDAS'' \<and> timestep s = ''day''")
  case True
  then show ?thesis by (simp add: await_market_to_close_def)
next
  case False
  have fr: "same_broker s (final_state (process_pending_orders fd s))"
    using process_pending_orders_frame [of s fd] by simp
  show ?thesis
  proof (cases "process_pending_orders fd s")
    case (Inl e)
    with fr have "datetime (final_state (await_market_to_close fd timedelta s)) = datetime s"
      using False by (cases e) (simp add: await_market_to_close_def same_broker_def)
    then show ?thesis by simp
  next
    case (Inr s1)
    with fr have b: "same_broker s s1" by simp
    have d: "datetime s1 = datetime s" using b by (simp add: same_broker_def)
    show ?thesis
      using False Inr d get_time_same_broker(2) [OF b]
      by (simp add: await_market_to_close_def Let_def new_datetime_def split: option.splits)
  qed
qed

lemma idle_demo_pass: "process_pending_orders fd idle_demo = Inr idle_demo"
  by (simp add: process_pending_orders_def process_expired_option_contracts_def idle_demo_def
        demo_state_def)

lemma idle_demo_clock:
  "datetime idle_demo = 1000" "get_time_to_open idle_demo = 0"
  "get_time_to_close idle_demo = Some 60" "SOURCE idle_demo = ''PANDAS''"
  "timestep idle_demo = ''minute''"
  by (simp_all add: idle_demo_def demo_state_def get_time_to_open_def get_time_to_close_def
        IS_BACKTESTING_BROKER_def)

text \<open>
  C8. The claim is that no call of the broker's \<open>_update_datetime\<close> moves the clock backwards.
  The broker adds whatever number of seconds it is given and takes over any absolute time,
  so a negative number, an earlier time, and an offset larger than the time left to the
  open or to the close all set the clock back.
\<close>

theorem clock_moves_backwards:
  "new_datetime (datetime idle_demo) (Number (- 60)) < datetime idle_demo
   \<and> datetime (update_datetime (Number (- 60)) idle_demo) < datetime idle_demo
   \<and> datetime (update_datetime (Timedelta (- 60)) idle_demo) < datetime idle_demo
   \<and> datetime (update_datetime (Datetime 500) idle_demo) < datetime idle_demo
   \<and> datetime (final_state (await_market_to_close demo_feed (Some 5) idle_demo))
        < datetime idle_demo
   \<and> datetime (final_state (await_market_to_open demo_feed (Some 5) idle_demo))
        < datetime idle_demo"
  by (simp add: await_market_to_close_def await_market_to_open_def idle_demo_pass
        idle_demo_clock new_datetime_def Let_def)

text \<open>
  C8, as the code has it. A timedelta or a number of seconds that is not negative, and an
  absolute time that is not earlier than the current one, never move the clock backwards.
  The two waits do not move it backwards when they are called without offset, or with an
  offset of at most the time left to the open (to the close).
\<close>

theorem clock_monotone_when_nonnegative:
  "(0 \<le> d \<longrightarrow> datetime s \<le> datetime (update_datetime (Timedelta d) s))
   \<and> (0 \<le> x \<longrightarrow> datetime s \<le> datetime (update_datetime (Number x) s))
   \<and> (datetime s \<le> t \<longrightarrow> datetime s \<le> datetime (update_datetime (Datetime t) s))
   \<and> datetime s \<le> datetime (final_state (await_market_to_open fd None s))
   \<and> datetime s \<le> datetime (final_state (await_market_to_close fd None s))
   \<and> (60 * m \<le> get_time_to_open s \<longrightarrow>
        datetime s \<le> datetime (final_state (await_market_to_open fd (Some m) s)))
   \<and> (60 * m \<le> (case get_time_to_close s of None \<Rightarrow> 0 | Some r \<Rightarrow> r) \<longrightarrow>
        datetime s \<le> datetime (final_state (await_market_to_close fd (Some m) s)))"
proof -
  have o: "0 \<le> get_time_to_open s" by (rule get_time_to_open_nonneg)
  have c: "0 \<le> (case get_time_to_close s of None \<Rightarrow> 0 | Some r \<Rightarrow> r)"
    using get_time_to_close_nonneg [of s] by (cases "get_time_to_close s") simp_all
  have 1: "datetime s \<le> datetime (final_state (await_market_to_open fd None s))"
    using datetime_await_market_to_open [of fd None s] o by auto
  have 2: "datetime s \<le> datetime (final_state (await_market_to_close fd None s))"
    using datetime_await_market_to_close [of fd None s] c by auto
  have 3: "datetime s \<le> datetime (final_state (await_market_to_open fd (Some m) s))"
    if "60 * m \<le> get_time_to_open s"
    using datetime_await_market_to_open [of fd "Some m" s] o that by (auto split: if_splits)
  have 4: "datetime s \<le> datetime (final_state (await_market_to_close fd (Some m) s))"
    if "60 * m \<le> (case get_time_to_close s of None \<Rightarrow> 0 | Some r \<Rightarrow> r)"
    using datetime_await_market_to_close [of fd "Some m" s] that by auto
  show ?thesis using 1 2 3 4 by (simp add: new_datetime_def)
qed

theorem clock_monotone_when_nonnegative_witness:
  "(0::real) \<le> 60
   \<and> datetime idle_demo \<le> datetime (update_datetime (Number 60) idle_demo)
   \<and> datetime idle_demo \<le> 2000
   \<and> datetime idle_demo \<le> datetime (update_datetime (Datetime 2000) idle_demo)
   \<and> 60 * 0 \<le> get_time_to_open idle_demo
   \<and> datetime idle_demo \<le> datetime (final_state (await_market_to_open demo_feed (Some 0) idle_demo))
   \<and> 60 * 1 \<le> (case get_time_to_close idle_demo of None \<Rightarrow> 0 | Some r \<Rightarrow> r)
   \<and> datetime idle_demo \<le> datetime (final_state (await_market_to_close demo_feed (Some 1) idle_demo))"
  using clock_monotone_when_nonnegative [of 60 idle_demo 60 2000 demo_feed 0]
    clock_monotone_when_nonnegative [of 60 idle_demo 60 2000 demo_feed 1]
  by (simp add: idle_demo_clock)

subsection \<open>One of a pair fills\<close>

lemma status_constants [simp]: "FILLED_ORDER \<noteq> CANCELED_ORDER" "CANCELED_ORDER \<noteq> FILLED_ORDER"
  by (simp_all add: FILLED_ORDER_def CANCELED_ORDER_def)

lemma flatten_order_old_orders:
  "j < next_id s \<Longrightarrow> orders (snd (flatten_order i s)) j = orders s j"
  by (simp add: flatten_order_def alloc_def set_dependent_order_def Let_def
        split: prod.splits list.splits)

lemma append_flattened_old_orders:
  assumes "j < next_id s"
  shows "orders (append_flattened i s) j = orders s j"
proof (cases "order_class (orders s i) \<in> set [''bracket'', ''oto'']")
  case False
  then show ?thesis by (simp add: append_flattened_def)
next
  case True
  obtain ids t where f: "flatten_order i s = (ids, t)" by (cases "flatten_order i s")
  from flatten_order_old_orders [OF assms, of i] f have "orders t j = orders s j" by simp
  then show ?thesis using True f by (simp add: append_flattened_def)
qed

lemma orders_set_status:
  "orders (set_status i st s) j =
     (if j = i \<and> status (orders s i) \<noteq> FILLED_ORDER \<and> status (orders s i) \<noteq> CANCELED_ORDER
      then (orders s i)\<lparr>status := st\<rparr> else orders s j)"
  by (simp add: set_status_def)

lemma status_mark_and_cancel_dependent:
  "status (orders (mark_and_cancel_dependent i s) j) =
     (case dependent_order (orders s i) of
        None \<Rightarrow> status (orders s j)
      | Some d \<Rightarrow>
          if j = d \<and> status (orders s d) \<noteq> FILLED_ORDER \<and> status (orders s d) \<noteq> CANCELED_ORDER
             \<and> (case dependent_order (orders s d) of
                   None \<Rightarrow> True
                 | Some k \<Rightarrow> status (orders s k) \<noteq> FILLED_ORDER)
          then CANCELED_ORDER else status (orders s j))"
  by (simp add: mark_and_cancel_dependent_def cancel_order_def dispatch_def
        process_trade_event_def orders_set_status split: option.splits)

lemma flag_mark_and_cancel_dependent:
  "dependent_order_filled (orders (mark_and_cancel_dependent i s) j) =
     (dependent_order_filled (orders s j) \<or> dependent_order (orders s i) = Some j)"
  by (auto simp add: mark_and_cancel_dependent_def cancel_order_def dispatch_def
        process_trade_event_def orders_set_status split: option.splits)

lemma status_fill_order:
  assumes "j < next_id s"
  shows "status (orders (fill_order i p q s) j) =
     (if j = i \<and> status (orders (mark_and_cancel_dependent i s) i) \<noteq> FILLED_ORDER
           \<and> status (orders (mark_and_cancel_dependent i s) i) \<noteq> CANCELED_ORDER
      then FILLED_ORDER else status (orders (mark_and_cancel_dependent i s) j))"
proof -
  define m where "m = mark_and_cancel_dependent i s"
  have n: "j < next_id m" using assms by (simp add: m_def)
  have a: "orders (append_flattened i m) j = orders m j"
    using n by (rule append_flattened_old_orders)
  show ?thesis
  proof (cases "j = i")
    case True
    with a show ?thesis
      by (simp add: fill_order_def dispatch_def process_trade_event_def orders_set_status
            charge_trade_cost_def set_cash_position_def Let_def m_def [symmetric])
  next
    case False
    with a show ?thesis
      by (simp add: fill_order_def dispatch_def process_trade_event_def orders_set_status
            charge_trade_cost_def set_cash_position_def Let_def m_def [symmetric])
  qed
qed

lemma flag_fill_order:
  assumes "j < next_id s"
  shows "dependent_order_filled (orders (fill_order i p q s) j) =
     (dependent_order_filled (orders s j) \<or> dependent_order (orders s i) = Some j)"
proof -
  define m where "m = mark_and_cancel_dependent i s"
  have n: "j < next_id m" using assms by (simp add: m_def)
  have a: "orders (append_flattened i m) j = orders m j"
    using n by (rule append_flattened_old_orders)
  have "dependent_order_filled (orders (fill_order i p q s) j) =
        dependent_order_filled (orders m j)"
    using a
    by (cases "j = i")
       (simp_all add: fill_order_def dispatch_def process_trade_event_def orders_set_status
          charge_trade_cost_def set_cash_position_def Let_def m_def [symmetric])
  then show ?thesis by (simp add: m_def flag_mark_and_cancel_dependent)
qed

lemma oco_pair_heap_grows:
  assumes "oco_pair a b s" and "heap_grows s s'"
  shows "oco_pair a b s'"
proof -
  from assms(1) have p: "a \<noteq> b" "a < next_id s" "b < next_id s"
    "dependent_order (orders s a) = Some b" "dependent_order (orders s b) = Some a"
    by (simp_all add: oco_pair_def)
  from assms(2) p(2,3) have "same_terms (orders s a) (orders s' a)"
    "same_terms (orders s b) (orders s' b)" "next_id s \<le> next_id s'"
    by (simp_all add: heap_grows_def)
  with p show ?thesis by (simp add: oco_pair_def same_terms_def)
qed

lemma new_events_fill_order:
  "new_events s (fill_order i p q s) =
     (case dependent_order (orders s i) of None \<Rightarrow> [] | Some d \<Rightarrow> [Canceled_order d])
       @ [Filled_order i p q]"
  by (simp add: new_events_def events_fill_order)

lemma oco_step_fill_order:
  assumes inv: "oco_inv a b s" and nf: "\<not> sibling_flagged i s" and nc: "\<not> is_canceled i s"
  shows "oco_step a b s (fill_order i p q s)"
proof -
  let ?s' = "fill_order i p q s"
  from inv have pair: "oco_pair a b s" by (simp add: oco_inv_def)
  then have p: "a \<noteq> b" "a < next_id s" "b < next_id s"
    "dependent_order (orders s a) = Some b" "dependent_order (orders s b) = Some a"
    by (simp_all add: oco_pair_def)
  have pair': "oco_pair a b ?s'"
    using pair heap_grows_fill_order by (rule oco_pair_heap_grows)
  have ev: "\<exists>evs. events ?s' = events s @ evs" by (simp add: events_fill_order)
  note st = status_fill_order [OF p(2)] status_fill_order [OF p(3)]
    status_mark_and_cancel_dependent
  note fl = flag_fill_order [OF p(2)] flag_fill_order [OF p(3)]
  from inv have i1: "\<not> (is_filled a s \<and> is_filled b s)"
    and i2: "is_filled a s \<longrightarrow> sibling_flagged b s"
    and i3: "is_filled b s \<longrightarrow> sibling_flagged a s"
    by (simp_all add: oco_inv_def)
  consider (a) "i = a" | (b) "i = b" | (other) "i \<noteq> a" "i \<noteq> b" by blast
  then show ?thesis
  proof cases
    case a
    from i3 nf a have nfb: "status (orders s b) \<noteq> FILLED_ORDER" by (auto simp add: is_filled_def)
    from nc a have nca: "status (orders s a) \<noteq> CANCELED_ORDER" by (simp add: is_canceled_def)
    from nf a have nfa: "\<not> dependent_order_filled (orders s a)" by (simp add: sibling_flagged_def)
    show ?thesis
      unfolding oco_step_def oco_inv_def oco_progress_def is_filled_def is_canceled_def
        sibling_flagged_def new_events_fill_order
      using pair' ev p nfb nca nfa a
      by (simp add: st fl)
  next
    case b
    from i2 nf b have nfa: "status (orders s a) \<noteq> FILLED_ORDER" by (auto simp add: is_filled_def)
    from nc b have ncb: "status (orders s b) \<noteq> CANCELED_ORDER" by (simp add: is_canceled_def)
    from nf b have nfb: "\<not> dependent_order_filled (orders s b)" by (simp add: sibling_flagged_def)
    show ?thesis
      unfolding oco_step_def oco_inv_def oco_progress_def is_filled_def is_canceled_def
        sibling_flagged_def new_events_fill_order
      using pair' ev p nfa ncb nfb b
      by (simp add: st fl)
  next
    case other
    show ?thesis
      unfolding oco_step_def oco_inv_def oco_progress_def is_filled_def is_canceled_def
        sibling_flagged_def new_events_fill_order
      using pair' ev p other i1 i2 i3
      by (auto simp add: st fl is_filled_def sibling_flagged_def split: option.splits)
  qed
qed

lemma oco_step_refl: "oco_inv a b s \<Longrightarrow> oco_step a b s s"
  by (simp add: oco_step_def oco_progress_def)

lemma oco_progress_trans:
  assumes "oco_progress a b s t" and "oco_progress a b t u"
    and "events t = events s @ e1" and "events u = events t @ e2"
  shows "oco_progress a b s u"
proof -
  have n: "new_events s t = e1" "new_events t u = e2" "new_events s u = e1 @ e2"
    using assms(3,4) by (simp_all add: new_events_def)
  show ?thesis
    using assms(1,2) unfolding oco_progress_def n
    by (cases "is_filled a t") auto
qed

lemma oco_step_trans:
  assumes "oco_step a b s t" and "oco_step a b t u"
  shows "oco_step a b s u"
proof -
  from assms(1) obtain e1 where e1: "events t = events s @ e1"
    and p1: "oco_progress a b s t" "oco_progress b a s t"
    by (auto simp add: oco_step_def)
  from assms(2) obtain e2 where e2: "events u = events t @ e2"
    and p2: "oco_progress a b t u" "oco_progress b a t u" and inv: "oco_inv a b u"
    by (auto simp add: oco_step_def)
  have "oco_progress a b s u" using p1(1) p2(1) e1 e2 by (rule oco_progress_trans)
  moreover have "oco_progress b a s u" using p1(2) p2(2) e1 e2 by (rule oco_progress_trans)
  moreover have "\<exists>evs. events u = events s @ evs" using e1 e2 by simp
  ultimately show ?thesis using inv by (simp add: oco_step_def)
qed

lemma oco_step_same_runtime:
  assumes inv: "oco_inv a b s" and g: "heap_grows s s'" and ev: "events s' = events s"
    and st: "\<forall>j. status (orders s' j) = status (orders s j)"
    and fl: "\<forall>j. dependent_order_filled (orders s' j) = dependent_order_filled (orders s j)"
  shows "oco_step a b s s'"
proof -
  from inv have "oco_pair a b s" by (simp add: oco_inv_def)
  then have "oco_pair a b s'" using g by (rule oco_pair_heap_grows)
  then show ?thesis
    using inv
    by (simp add: oco_step_def oco_inv_def oco_progress_def is_filled_def is_canceled_def
          sibling_flagged_def st fl ev)
qed

lemma update_trail_stop_price_flag [simp]:
  "dependent_order_filled (update_trail_stop_price ord p) = dependent_order_filled ord"
  by (simp add: update_trail_stop_price_def split: option.splits)

lemma transaction_price_runtime:
  "transaction_price ord b = Inr (price, ord') \<Longrightarrow>
     status ord' = status ord \<and> dependent_order_filled ord' = dependent_order_filled ord"
  by (auto simp add: transaction_price_def Let_def split: if_splits sum.splits option.splits)

lemma oco_step_store_order:
  assumes "oco_inv a b s" and "same_terms (orders s i) ord"
    and "status ord = status (orders s i)"
    and "dependent_order_filled ord = dependent_order_filled (orders s i)"
  shows "oco_step a b s (store_order i ord s)"
  using assms(1) heap_grows_store_order [OF assms(2)]
  by (rule oco_step_same_runtime) (simp_all add: store_order_def assms(3,4))

lemma oco_step_after_price:
  assumes inv: "oco_inv a b s" and nf: "\<not> sibling_flagged i s" and nc: "\<not> is_canceled i s"
    and r: "r = Inl e \<or> (\<exists>price ord'. r = Inr (price, ord') \<and> same_terms (orders s i) ord'
              \<and> status ord' = status (orders s i)
              \<and> dependent_order_filled ord' = dependent_order_filled (orders s i))"
  shows "oco_step a b s (final_state (after_price i q r s))"
proof (cases r)
  case (Inl e')
  then show ?thesis using inv by (simp add: after_price_def oco_step_refl)
next
  case (Inr pr)
  obtain price ord' where pr: "pr = (price, ord')" by (cases pr)
  with Inr r have o: "same_terms (orders s i) ord'" "status ord' = status (orders s i)"
    "dependent_order_filled ord' = dependent_order_filled (orders s i)" by auto
  let ?s1 = "store_order i ord' s"
  have s1: "oco_step a b s ?s1" using inv o by (rule oco_step_store_order)
  show ?thesis
  proof (cases price)
    case None
    then show ?thesis using s1 Inr pr by (simp add: after_price_def)
  next
    case (Some p)
    have inv1: "oco_inv a b ?s1" using s1 by (simp add: oco_step_def)
    have nf1: "\<not> sibling_flagged i ?s1" using nf o(3)
      by (simp add: sibling_flagged_def store_order_def)
    have nc1: "\<not> is_canceled i ?s1" using nc o(2)
      by (simp add: is_canceled_def store_order_def)
    have "oco_step a b ?s1 (fill_order i p q ?s1)"
      using inv1 nf1 nc1 by (rule oco_step_fill_order)
    with s1 have "oco_step a b s (fill_order i p q ?s1)" by (rule oco_step_trans)
    then show ?thesis using Some Inr pr by (simp add: after_price_def)
  qed
qed

lemma process_order_skips:
  "dependent_order_filled (orders s i) \<or> status (orders s i) = CANCELED_ORDER \<Longrightarrow>
     process_order fd i s = Inr s"
  by (simp add: process_order_def)

lemma oco_step_process_order:
  assumes inv: "oco_inv a b s"
  shows "oco_step a b s (final_state (process_order fd i s))"
proof (cases "dependent_order_filled (orders s i) \<or> status (orders s i) = CANCELED_ORDER")
  case True
  then show ?thesis using inv by (simp add: process_order_skips oco_step_refl)
next
  case False
  then have nf: "\<not> sibling_flagged i s" and nc: "\<not> is_canceled i s"
    by (simp_all add: sibling_flagged_def is_canceled_def)
  show ?thesis
  proof (cases "fetch_ohlc fd s (orders s i)")
    case (Inl e)
    then show ?thesis using False inv by (simp add: process_order_def oco_step_refl)
  next
    case (Inr f)
    show ?thesis
    proof (cases f)
      case Cancel
      then show ?thesis using Inr fetch_ohlc_never_cancels by simp
    next
      case Unbound
      define r where "r = transaction_price_unbound (orders s i)"
      have "r = Inl ValueError \<or> r = Inl UnboundLocalError \<or> r = Inr (None, orders s i)"
        by (simp add: r_def transaction_price_unbound_def)
      then have "(\<exists>e. r = Inl e) \<or> (\<exists>price ord'. r = Inr (price, ord')
              \<and> same_terms (orders s i) ord' \<and> status ord' = status (orders s i)
              \<and> dependent_order_filled ord' = dependent_order_filled (orders s i))"
        by (metis same_terms_refl)
      then have "oco_step a b s (final_state (after_price i (quantity (orders s i)) r s))"
        using oco_step_after_price [OF inv nf nc] by metis
      then show ?thesis using False Inr Unbound by (simp add: process_order_def Let_def r_def)
    next
      case (Row bar)
      define r where "r = transaction_price (orders s i) bar"
      have "(\<exists>e. r = Inl e) \<or> (\<exists>price ord'. r = Inr (price, ord')
              \<and> same_terms (orders s i) ord' \<and> status ord' = status (orders s i)
              \<and> dependent_order_filled ord' = dependent_order_filled (orders s i))"
      proof (cases r)
        case (Inl e)
        then show ?thesis by simp
      next
        case (Inr pr)
        then show ?thesis
          using transaction_price_same_terms [of "orders s i" bar "fst pr" "snd pr"]
            transaction_price_runtime [of "orders s i" bar "fst pr" "snd pr"]
          by (cases pr) (simp add: r_def)
      qed
      then have "oco_step a b s (final_state (after_price i (quantity (orders s i)) r s))"
        using oco_step_after_price [OF inv nf nc] by metis
      then show ?thesis using False Inr Row by (simp add: process_order_def Let_def r_def)
    qed
  qed
qed

lemma oco_step_process_orders:
  "oco_inv a b s \<Longrightarrow> oco_step a b s (final_state (process_orders fd pending s))"
proof (induction pending arbitrary: s)
  case Nil
  then show ?case by (simp add: oco_step_refl)
next
  case (Cons i pending)
  have st: "oco_step a b s (final_state (process_order fd i s))"
    using Cons.prems by (rule oco_step_process_order)
  show ?case
  proof (cases "process_order fd i s")
    case (Inl e)
    with st show ?thesis by simp
  next
    case (Inr s1)
    with st have 1: "oco_step a b s s1" by simp
    then have "oco_inv a b s1" by (simp add: oco_step_def)
    then have "oco_step a b s1 (final_state (process_orders fd pending s1))" by (rule Cons.IH)
    with 1 have "oco_step a b s (final_state (process_orders fd pending s1))"
      by (rule oco_step_trans)
    then show ?thesis using Inr by simp
  qed
qed

lemma oco_step_same_heap:
  assumes inv: "oco_inv a b s" and o: "orders s' = orders s" and n: "next_id s' = next_id s"
    and ev: "\<exists>evs. events s' = events s @ evs"
  shows "oco_step a b s s'"
  using inv ev
  by (simp add: oco_step_def oco_inv_def oco_pair_def oco_progress_def is_filled_def
        is_canceled_def sibling_flagged_def o n)

lemma oco_step_process_pending_orders:
  assumes inv: "oco_inv a b s"
  shows "oco_step a b s (final_state (process_pending_orders fd s))"
proof -
  let ?x = "final_state (process_expired_option_contracts fd s)"
  have x: "oco_step a b s ?x"
    using inv process_expired_option_contracts_frame [of fd s]
    by (intro oco_step_same_heap) simp_all
  from process_pending_orders_cases [of fd s] show ?thesis
  proof (elim disjE exE conjE)
    fix e assume "process_expired_option_contracts fd s = Inl e"
      and "process_pending_orders fd s = Inl e"
    with x show ?thesis by simp
  next
    fix s1 pending assume e: "process_expired_option_contracts fd s = Inr s1"
      and p: "process_pending_orders fd s = process_orders fd pending s1"
    from x e have 1: "oco_step a b s s1" by simp
    then have "oco_inv a b s1" by (simp add: oco_step_def)
    then have "oco_step a b s1 (final_state (process_orders fd pending s1))"
      by (rule oco_step_process_orders)
    with 1 show ?thesis unfolding p by (rule oco_step_trans)
  qed
qed

lemma flatten_order_oco_inv:
  assumes "order_class (orders s i) = ''oco''"
  shows "\<exists>n1 n2 s'. flatten_order i s = ([n1, n2], s') \<and> oco_inv n1 n2 s'
           \<and> order_type (orders s' n1) = (if stop_loss_price (orders s i) = None
                                           then ''market'' else ''stop'')
           \<and> order_type (orders s' n2) = (if take_profit_price (orders s i) = None
                                           then ''market'' else ''limit'')"
  using assms
  by (simp add: flatten_order_def alloc_def set_dependent_order_def Let_def oco_inv_def
        oco_pair_def is_filled_def sibling_flagged_def Order_def FILLED_ORDER_def)

text \<open>
  C5. Two orders that name each other as dependent order (as the children of an OCO order
  do) are never both filled: if that holds before a pass of \<open>process_pending_orders\<close>, with
  the sibling of a filled one flagged, it holds after the pass, however the pass ends, and
  so after any number of passes. When one of the two becomes filled during a pass, its
  sibling has the flag \<open>dependent_order_filled\<close>, is canceled, and its cancellation has been
  dispatched in that same pass. Every evaluation of an order that has the flag skips it and
  changes nothing.
\<close>

theorem oco_at_most_one_fills:
  assumes "oco_inv a b s" and "s' = final_state (process_pending_orders fd s)"
  shows "oco_inv a b s'
     \<and> \<not> (is_filled a s' \<and> is_filled b s')
     \<and> (\<not> is_filled a s \<and> is_filled a s' \<longrightarrow>
           sibling_flagged b s' \<and> is_canceled b s'
           \<and> Canceled_order b \<in> set (new_events s s'))
     \<and> (\<not> is_filled b s \<and> is_filled b s' \<longrightarrow>
           sibling_flagged a s' \<and> is_canceled a s'
           \<and> Canceled_order a \<in> set (new_events s s'))
     \<and> (\<forall>fd' i t. sibling_flagged i t \<longrightarrow> process_order fd' i t = Inr t)"
proof -
  have "oco_step a b s s'"
    unfolding assms(2) using assms(1) by (rule oco_step_process_pending_orders)
  then have "oco_inv a b s'" "oco_progress a b s s'" "oco_progress b a s s'"
    by (simp_all add: oco_step_def)
  moreover from this(1) have "\<not> (is_filled a s' \<and> is_filled b s')"
    by (simp add: oco_inv_def)
  moreover have "\<forall>fd' i t. sibling_flagged i t \<longrightarrow> process_order fd' i t = Inr t"
    by (simp add: sibling_flagged_def process_order_skips)
  ultimately show ?thesis by (simp add: oco_progress_def)
qed

lemma oco_demo_orders:
  "orders oco_demo 0 = (demo_order ''stop'' (Some 95) None)\<lparr>dependent_order := Some 1\<rparr>"
  "orders oco_demo (Suc 0) = (demo_order ''limit'' None (Some 105))\<lparr>dependent_order := Some 0\<rparr>"
  "next_id oco_demo = 2" "tracked_orders oco_demo = [0, 1]" "positions oco_demo = []"
  "events oco_demo = []"
  by (simp_all add: oco_demo_def demo_state_def)

lemma oco_demo_inv: "oco_inv 0 1 oco_demo \<and> \<not> is_filled 0 oco_demo"
  by (simp add: oco_inv_def oco_pair_def is_filled_def sibling_flagged_def oco_demo_orders
        demo_order_def Order_def FILLED_ORDER_def)

lemma oco_demo_first:
  "process_order demo_feed 0 oco_demo = Inr (fill_order 0 95 10 oco_demo)"
proof -
  have f: "fetch_ohlc demo_feed oco_demo (orders oco_demo 0) = Inr (Row demo_bar)"
    unfolding oco_demo_def by (rule demo_fetch)
  have t: "transaction_price (orders oco_demo 0) demo_bar = Inr (Some 95, orders oco_demo 0)"
    by (simp add: transaction_price_def call_stop_order_def stop_order_def oco_demo_orders
          demo_order_def Order_def demo_bar_def)
  have "process_order demo_feed 0 oco_demo =
          after_price 0 (quantity (orders oco_demo 0))
            (transaction_price (orders oco_demo 0) demo_bar) oco_demo"
    using _ _ f by (rule process_order_row)
       (simp_all add: oco_demo_orders demo_order_def Order_def CANCELED_ORDER_def)
  moreover have "quantity (orders oco_demo 0) = 10"
    by (simp add: oco_demo_orders demo_order_def Order_def)
  ultimately show ?thesis
    unfolding t by (simp add: after_price_def)
qed

lemma oco_demo_pass:
  "process_pending_orders demo_feed oco_demo = Inr (fill_order 0 95 10 oco_demo)"
proof -
  have ex: "process_expired_option_contracts demo_feed oco_demo = Inr oco_demo"
    by (simp add: process_expired_option_contracts_def oco_demo_orders)
  have pend: "filter (\<lambda>i. status (orders oco_demo i) \<in> set [''unprocessed'', ''new''])
                (tracked_orders oco_demo) = [0, 1]"
    by (simp add: oco_demo_orders demo_order_def Order_def)
  have fl: "dependent_order_filled (orders (fill_order 0 95 10 oco_demo) (Suc 0))"
    by (subst flag_fill_order) (simp_all add: oco_demo_orders)
  have second: "process_order demo_feed (Suc 0) (fill_order 0 95 10 oco_demo)
                  = Inr (fill_order 0 95 10 oco_demo)"
    using fl by (simp add: process_order_skips)
  have "process_pending_orders demo_feed oco_demo = process_orders demo_feed [0, 1] oco_demo"
    using ex pend by (rule process_pending_orders_some)
  then show ?thesis by (simp add: oco_demo_first second)
qed

lemma oco_demo_filled: "is_filled 0 (fill_order 0 95 10 oco_demo)"
  unfolding is_filled_def
  by (subst status_fill_order)
     (simp_all add: oco_demo_orders status_mark_and_cancel_dependent demo_order_def Order_def
        FILLED_ORDER_def CANCELED_ORDER_def)

theorem oco_at_most_one_fills_witness:
  "oco_inv 0 1 oco_demo
   \<and> \<not> is_filled 0 oco_demo
   \<and> process_pending_orders demo_feed oco_demo = Inr (fill_order 0 95 10 oco_demo)
   \<and> is_filled 0 (fill_order 0 95 10 oco_demo)
   \<and> \<not> is_filled 1 (fill_order 0 95 10 oco_demo)
   \<and> sibling_flagged 1 (fill_order 0 95 10 oco_demo)
   \<and> is_canceled 1 (fill_order 0 95 10 oco_demo)
   \<and> Canceled_order 1 \<in> set (new_events oco_demo (fill_order 0 95 10 oco_demo))
   \<and> process_order demo_feed 1 (fill_order 0 95 10 oco_demo)
        = Inr (fill_order 0 95 10 oco_demo)"
proof -
  have s': "fill_order 0 95 10 oco_demo = final_state (process_pending_orders demo_feed oco_demo)"
    by (simp add: oco_demo_pass)
  from oco_at_most_one_fills [OF conjunct1 [OF oco_demo_inv] s']
    oco_demo_inv oco_demo_filled oco_demo_pass
  show ?thesis by simp
qed

end
